theory Spec2Isabelle
  imports Complex_Main "HOL-Library.Word"
begin

chapter \<open>The admission and routing pipeline of the API gateway\<close>

text \<open>
  A shallow embedding of the gateway's request path: the three rate limiters that run
  as Lua scripts on the coordination store (package \<open>ratelimiter\<close>), the rate-limit
  and authentication middleware and the handler chain of the \<open>/v1\<close> group (packages
  \<open>middleware\<close>, \<open>auth\<close> and \<open>main\<close>), and the router with its balancers, health
  checker and header handling (package \<open>proxy\<close>). Functions keep the names they have in
  the Go source; state that the Go code mutates is passed in and returned.
\<close>

section \<open>Go integers and Lua numbers\<close>

text \<open>
  Go's \<open>int\<close>, \<open>int64\<close> and \<open>time.Duration\<close> are 64-bit two's complement values.
  They are modelled as \<open>int\<close> with the wrap-around written out by \<open>go_int64\<close>.
  Go's integer quotient truncates towards zero (\<open>go_quot\<close>); a zero divisor panics,
  which the callers below check before dividing.
\<close>

definition go_int64 :: "int \<Rightarrow> int" where
  "go_int64 x = signed_take_bit 63 x"

definition go_quot :: "int \<Rightarrow> int \<Rightarrow> int" where
  "go_quot a b = (if (a < 0) = (b < 0) then \<bar>a\<bar> div \<bar>b\<bar> else - (\<bar>a\<bar> div \<bar>b\<bar>))"

definition go_rem :: "int \<Rightarrow> int \<Rightarrow> int" where
  "go_rem a b = a - b * go_quot a b"

text \<open>\<open>time.Second\<close>, the number of nanoseconds in a second.\<close>

definition Second :: int where
  "Second = 1000000000"

subsection \<open>Floating point\<close>

text \<open>
  Go's \<open>float64\<close> is the IEEE 754 double. A finite double is a rational number, and
  every operation returns the exact result rounded to the nearest double, a tie going
  to the even significand. \<open>f64\<close> is that rounding: \<open>f64_exponent\<close> finds the
  exponent \<open>e\<close> that brings the magnitude into \<open>2\<^sup>5\<^sup>2 \<le> a / 2\<^sup>e < 2\<^sup>5\<^sup>3\<close> (at
  most 2200 halvings or doublings, which covers the whole range of the format; the
  exponent of a subnormal stays at \<open>-1074\<close>), and the significand is rounded to an
  integer there. Overflow to infinity is not modelled: the values below come from
  64-bit integers and stay under \<open>2\<^sup>6\<^sup>4\<close>.
\<close>

definition pow2 :: "int \<Rightarrow> rat" where
  "pow2 e = (if 0 \<le> e then 2 ^ nat e else 1 / 2 ^ nat (- e))"

fun f64_exponent :: "nat \<Rightarrow> rat \<Rightarrow> int" where
  "f64_exponent 0 a = 0"
| "f64_exponent (Suc n) a =
     (if 2 ^ 53 \<le> a then f64_exponent n (a / 2) + 1
      else if a < 2 ^ 52 then f64_exponent n (a * 2) - 1
      else 0)"

definition round_half_even :: "rat \<Rightarrow> int" where
  "round_half_even a =
     (let n = \<lfloor>a\<rfloor>; d = a - of_int n
      in if d < 1 / 2 then n else if 1 / 2 < d then n + 1 else if even n then n else n + 1)"

definition f64 :: "rat \<Rightarrow> rat" where
  "f64 x =
     (if x = 0 then 0
      else (let e = max (f64_exponent 2200 \<bar>x\<bar>) (- 1074)
            in sgn x * of_int (round_half_even (\<bar>x\<bar> / pow2 e)) * pow2 e))"

text \<open>
  \<open>Duration.Seconds\<close> of package \<open>time\<close>:
  \<^verbatim>\<open>sec := d / Second; nsec := d % Second; return float64(sec) + float64(nsec)/1e9\<close>,
  and the conversion \<open>int(f)\<close>, which drops the fraction.
\<close>

definition Duration_Seconds :: "int \<Rightarrow> rat" where
  "Duration_Seconds d =
     (let sec = go_quot d Second;
          nsec = go_rem d Second
      in f64 (f64 (of_int sec) + f64 (f64 (of_int nsec) / 1000000000)))"

definition int_of_float64 :: "rat \<Rightarrow> int" where
  "int_of_float64 f = (if 0 \<le> f then \<lfloor>f\<rfloor> else \<lceil>f\<rceil>)"

subsection \<open>Lua numbers\<close>

text \<open>
  The scripts run on Lua numbers. Every number they handle here is an integer
  (bucket sizes, rates, unix seconds), on which Lua's arithmetic is exact as long as the
  values stay below \<open>2\<^sup>5\<^sup>3\<close>, so they are modelled as \<open>int\<close>. \<open>math.floor\<close> of a
  product of integers is the product, and \<open>math.ceil(a / b)\<close> is the ceiling of the
  exact quotient; the divisor is a configured rate, which \<open>Config.Validate\<close> keeps
  above zero.
\<close>

definition lua_ceil_div :: "int \<Rightarrow> int \<Rightarrow> int" where
  "lua_ceil_div a b = - ((- a) div b)"

section \<open>The coordination store\<close>

text \<open>
  The store is Redis. A database maps a key to its value and the time to live (in
  seconds) that the last \<open>EXPIRE\<close> gave it; \<open>None\<close> is a key without expiry. Writing a
  value keeps the time to live of an existing key. \<open>EXPIRE\<close> with a timeout that is
  not positive deletes the key at once. Time does not pass inside the model: a key whose
  time to live has run out between two calls is a key removed from the database before
  the second call. A connection either reaches the database or fails, in which case
  every \<open>Eval\<close> returns an error.
\<close>

type_synonym 'v redis_db = "string \<rightharpoonup> ('v \<times> int option)"

datatype 'v redis_conn = Connected "'v redis_db" | Unavailable

definition conn_db :: "'v redis_conn \<Rightarrow> 'v redis_db" where
  "conn_db conn = (case conn of Connected db \<Rightarrow> db | Unavailable \<Rightarrow> Map.empty)"

definition redis_GET :: "string \<Rightarrow> 'v redis_db \<Rightarrow> 'v option" where
  "redis_GET key db = map_option fst (db key)"

definition redis_TTL :: "string \<Rightarrow> 'v redis_db \<Rightarrow> int option" where
  "redis_TTL key db = (case db key of None \<Rightarrow> None | Some (v, t) \<Rightarrow> t)"

definition redis_SET :: "string \<Rightarrow> 'v \<Rightarrow> 'v redis_db \<Rightarrow> 'v redis_db" where
  "redis_SET key v db = db(key \<mapsto> (v, redis_TTL key db))"

definition redis_EXPIRE :: "string \<Rightarrow> int \<Rightarrow> 'v redis_db \<Rightarrow> 'v redis_db" where
  "redis_EXPIRE key ttl db =
     (case db key of
        None \<Rightarrow> db
      | Some (v, t) \<Rightarrow> if ttl \<le> 0 then db(key := None) else db(key \<mapsto> (v, Some ttl)))"

section \<open>Rate limiters\<close>

text \<open>
  The key under which a limiter keeps the state of a rate-limit key:
  \<^verbatim>\<open>fmt.Sprintf("%s:%s", keyPrefix, key)\<close>.
\<close>

definition redisKey :: "string \<Rightarrow> string \<Rightarrow> string" where
  "redisKey keyPrefix key = keyPrefix @ '':'' @ key"

text \<open>\<open>LimitInfo\<close>; \<open>ResetIn\<close> is a \<^verbatim>\<open>time.Duration\<close>, a number of nanoseconds.\<close>

record LimitInfo =
  Allowed :: bool
  Remaining :: int
  Limit :: int
  ResetIn :: int

datatype limiter_error = RedisError | UnexpectedResultFormat

datatype go_panic = DivideByZero | IndexOutOfRange

text \<open>
  \<open>Allow\<close> returns Go's triple \<open>(bool, *LimitInfo, error)\<close>, or panics.
\<close>

type_synonym allow_ret = "bool \<times> LimitInfo option \<times> limiter_error option"

text \<open>
  The part shared by the three \<open>Allow\<close> methods after \<open>Eval\<close>: a reply that is not
  a list of three integers is an error, and the third integer, a number of seconds, becomes
  the duration \<^verbatim>\<open>time.Duration(resetIn) * time.Second\<close>.
\<close>

definition parse_reply :: "int \<Rightarrow> int list \<Rightarrow> allow_ret" where
  "parse_reply limit results =
     (case results of
        [a, r, s] \<Rightarrow>
          (a = 1,
           Some \<lparr>Allowed = (a = 1), Remaining = r, Limit = limit,
                 ResetIn = go_int64 (go_int64 s * Second)\<rparr>,
           None)
      | _ \<Rightarrow> (False, None, Some UnexpectedResultFormat))"

subsection \<open>Token bucket\<close>

text \<open>
  \<open>TokenBucket.Allow\<close>: the Lua script (\<open>tb_script\<close>, from the hash read by \<open>HMGET\<close> to
  the reply and the writes of \<open>HMSET\<close> and \<open>EXPIRE\<close>), the \<open>window\<close> passed to it as
  time to live, and the Go method around it. \<open>now\<close> is \<^verbatim>\<open>time.Now().Unix()\<close>. The
  division that computes the window panics when the refill rate is zero.
\<close>

record TokenBucket =
  tb_keyPrefix :: string
  tb_bucketSize :: int
  tb_refillRate :: int

record tb_hash =
  tokens :: int
  last_refill :: int

definition tb_script ::
  "string \<Rightarrow> int \<Rightarrow> int \<Rightarrow> int \<Rightarrow> int \<Rightarrow> tb_hash redis_db \<Rightarrow> int list \<times> tb_hash redis_db" where
  "tb_script key bucket_size refill_rate now window db =
     (let tokens0 = (case redis_GET key db of None \<Rightarrow> bucket_size | Some h \<Rightarrow> tokens h);
          last0 = (case redis_GET key db of None \<Rightarrow> now | Some h \<Rightarrow> last_refill h);
          elapsed = now - last0;
          tokens1 = (if elapsed > 0 then min bucket_size (tokens0 + elapsed * refill_rate)
                     else tokens0);
          last1 = (if elapsed > 0 then now else last0)
      in if tokens1 \<ge> 1 then
           (let tokens2 = tokens1 - 1 in
            ([1, tokens2, lua_ceil_div (bucket_size - tokens2) refill_rate],
             redis_EXPIRE key window
               (redis_SET key \<lparr>tokens = tokens2, last_refill = last1\<rparr> db)))
         else
           ([0, tokens1, lua_ceil_div (1 - tokens1) refill_rate],
            redis_EXPIRE key window
              (redis_SET key \<lparr>tokens = tokens1, last_refill = last1\<rparr> db)))"

definition tb_window :: "TokenBucket \<Rightarrow> int" where
  "tb_window tb = go_int64 (go_quot (go_int64 (tb_bucketSize tb * Second)) (tb_refillRate tb))"

definition TokenBucket_Allow ::
  "TokenBucket \<Rightarrow> int \<Rightarrow> string \<Rightarrow> tb_hash redis_conn
     \<Rightarrow> (go_panic + allow_ret) \<times> tb_hash redis_conn" where
  "TokenBucket_Allow tb now key conn =
     (let rkey = redisKey (tb_keyPrefix tb) key in
      if tb_refillRate tb = 0 then (Inl DivideByZero, conn)
      else
        (case conn of
           Unavailable \<Rightarrow> (Inr (False, None, Some RedisError), conn)
         | Connected db \<Rightarrow>
             (let (results, db') =
                    tb_script rkey (tb_bucketSize tb) (tb_refillRate tb) now (tb_window tb) db
              in (Inr (parse_reply (tb_bucketSize tb) results), Connected db'))))"

text \<open>
  The bucket of a key holds \<open>k\<close> tokens as of second \<open>t\<close>: the stored hash says so,
  or the key is absent (never used, or expired) and \<open>k\<close> is the bucket size.
\<close>

definition tb_holds :: "TokenBucket \<Rightarrow> string \<Rightarrow> int \<Rightarrow> int \<Rightarrow> tb_hash redis_db \<Rightarrow> bool" where
  "tb_holds tb key t k db =
     (case redis_GET (redisKey (tb_keyPrefix tb) key) db of
        None \<Rightarrow> k = tb_bucketSize tb
      | Some h \<Rightarrow> h = \<lparr>tokens = k, last_refill = t\<rparr>)"

text \<open>What an allowed call returns when it leaves \<open>k\<close> tokens in the bucket.\<close>

definition tb_allowed :: "TokenBucket \<Rightarrow> int \<Rightarrow> go_panic + allow_ret" where
  "tb_allowed tb k =
     Inr (True,
          Some \<lparr>Allowed = True, Remaining = k, Limit = tb_bucketSize tb,
                ResetIn = lua_ceil_div (tb_bucketSize tb - k) (tb_refillRate tb) * Second\<rparr>,
          None)"

subsection \<open>Leaky bucket\<close>

text \<open>
  \<open>LeakyBucket.Allow\<close>, built like the token bucket; its window is 1 when the leak rate
  is not positive or the quotient is not positive.
\<close>

record LeakyBucket =
  lb_keyPrefix :: string
  lb_capacity :: int
  lb_leakRate :: int

record lb_hash =
  level :: int
  last_leak :: int

definition lb_script ::
  "string \<Rightarrow> int \<Rightarrow> int \<Rightarrow> int \<Rightarrow> int \<Rightarrow> lb_hash redis_db \<Rightarrow> int list \<times> lb_hash redis_db" where
  "lb_script key capacity leak_rate now window db =
     (let level0 = (case redis_GET key db of None \<Rightarrow> 0 | Some h \<Rightarrow> level h);
          last0 = (case redis_GET key db of None \<Rightarrow> now | Some h \<Rightarrow> last_leak h);
          elapsed = now - last0;
          level1 = (if elapsed > 0 then max 0 (level0 - elapsed * leak_rate) else level0);
          last1 = (if elapsed > 0 then now else last0)
      in if level1 < capacity then
           (let level2 = level1 + 1 in
            ([1, capacity - level2, lua_ceil_div (capacity - level2) leak_rate],
             redis_EXPIRE key window
               (redis_SET key \<lparr>level = level2, last_leak = last1\<rparr> db)))
         else
           ([0, capacity - level1, lua_ceil_div (level1 - capacity + 1) leak_rate],
            redis_EXPIRE key window
              (redis_SET key \<lparr>level = level1, last_leak = last1\<rparr> db)))"

definition lb_window :: "LeakyBucket \<Rightarrow> int" where
  "lb_window lb =
     (if lb_leakRate lb > 0 then
        (let window = go_int64 (go_quot (go_int64 (lb_capacity lb * Second)) (lb_leakRate lb))
         in if window \<le> 0 then 1 else window)
      else 1)"

definition LeakyBucket_Allow ::
  "LeakyBucket \<Rightarrow> int \<Rightarrow> string \<Rightarrow> lb_hash redis_conn
     \<Rightarrow> (go_panic + allow_ret) \<times> lb_hash redis_conn" where
  "LeakyBucket_Allow lb now key conn =
     (let rkey = redisKey (lb_keyPrefix lb) key in
      case conn of
        Unavailable \<Rightarrow> (Inr (False, None, Some RedisError), conn)
      | Connected db \<Rightarrow>
          (let (results, db') =
                 lb_script rkey (lb_capacity lb) (lb_leakRate lb) now (lb_window lb) db
           in (Inr (parse_reply (lb_capacity lb) results), Connected db')))"

subsection \<open>Sliding window\<close>

text \<open>
  \<open>SlidingWindow.Allow\<close>.
  The sorted set under a key holds the request timestamps; the script adds each one as
  both member and score, so the set is a duplicate-free list of integers.
  \<open>ZREMRANGEBYSCORE key 0 hi\<close> removes the scores from 0 to \<open>hi\<close> inclusive, and a
  sorted set left empty is removed with its key. \<open>ZRANGE key 0 0 WITHSCORES\<close> yields
  the entry of least score, if there is one.
\<close>

record SlidingWindow =
  sw_keyPrefix :: string
  sw_limit :: int
  sw_windowSize :: int

definition redis_ZREMRANGEBYSCORE ::
  "string \<Rightarrow> int \<Rightarrow> int \<Rightarrow> int list redis_db \<Rightarrow> int list redis_db" where
  "redis_ZREMRANGEBYSCORE key lo hi db =
     (case db key of
        None \<Rightarrow> db
      | Some (zs, t) \<Rightarrow>
          (let zs' = filter (\<lambda>z. \<not> (lo \<le> z \<and> z \<le> hi)) zs
           in if zs' = [] then db(key := None) else db(key \<mapsto> (zs', t))))"

definition redis_ZCARD :: "string \<Rightarrow> int list redis_db \<Rightarrow> int" where
  "redis_ZCARD key db = (case redis_GET key db of None \<Rightarrow> 0 | Some zs \<Rightarrow> int (length zs))"

definition redis_ZADD :: "string \<Rightarrow> int \<Rightarrow> int list redis_db \<Rightarrow> int list redis_db" where
  "redis_ZADD key z db =
     redis_SET key (List.insert z (case redis_GET key db of None \<Rightarrow> [] | Some zs \<Rightarrow> zs)) db"

definition redis_ZRANGE_first :: "string \<Rightarrow> int list redis_db \<Rightarrow> int option" where
  "redis_ZRANGE_first key db =
     (case redis_GET key db of
        None \<Rightarrow> None
      | Some [] \<Rightarrow> None
      | Some (z # zs) \<Rightarrow> Some (fold min zs z))"

definition sw_script ::
  "string \<Rightarrow> int \<Rightarrow> int \<Rightarrow> int \<Rightarrow> int \<Rightarrow> int list redis_db \<Rightarrow> int list \<times> int list redis_db" where
  "sw_script key limit window_start window_end window_size db =
     (let db1 = redis_ZREMRANGEBYSCORE key 0 window_start db;
          current = redis_ZCARD key db1
      in if current < limit then
           ([1, limit - current - 1, window_size],
            redis_EXPIRE key window_size (redis_ZADD key window_end db1))
         else
           (let wait_time =
                  (case redis_ZRANGE_first key db1 of
                     None \<Rightarrow> 0
                   | Some oldest_time \<Rightarrow> window_start + window_size - oldest_time)
            in ([0, 0, wait_time], db1)))"

text \<open>
  \<open>now\<close> is \<open>time.Now()\<close> in nanoseconds since the epoch and the window size is a
  \<open>time.Duration\<close>, a 64-bit count of nanoseconds. \<open>Time.Unix\<close> is the floor of the
  seconds. \<open>Time.Add\<close> adds the duration to the instant; it saturates only when the
  seconds overflow 64 bits, which no instant near the present and no duration reaches.
  The start of the window is \<^verbatim>\<open>now.Add(-sw.windowSize).Unix()\<close>, where the negation is
  that of a 64-bit integer, and the window length given to the script is
  \<^verbatim>\<open>int(sw.windowSize.Seconds())\<close>. On the denied path the script sets no time to live.
\<close>

definition Unix :: "int \<Rightarrow> int" where
  "Unix t = t div Second"

definition Time_Add :: "int \<Rightarrow> int \<Rightarrow> int" where
  "Time_Add t d = t + d"

definition SlidingWindow_Allow ::
  "SlidingWindow \<Rightarrow> int \<Rightarrow> string \<Rightarrow> int list redis_conn
     \<Rightarrow> (go_panic + allow_ret) \<times> int list redis_conn" where
  "SlidingWindow_Allow sw now key conn =
     (let rkey = redisKey (sw_keyPrefix sw) key;
          windowStart = Unix (Time_Add now (go_int64 (- sw_windowSize sw)));
          windowEnd = Unix now;
          windowSizeSeconds = int_of_float64 (Duration_Seconds (sw_windowSize sw))
      in case conn of
           Unavailable \<Rightarrow> (Inr (False, None, Some RedisError), conn)
         | Connected db \<Rightarrow>
             (let (results, db') =
                    sw_script rkey (sw_limit sw) windowStart windowEnd windowSizeSeconds db
              in (Inr (parse_reply (sw_limit sw) results), Connected db')))"

text \<open>
  The timestamps stored under a key, and those that a call at \<open>now\<close> retains after
  it has dropped the scores from 0 up to the start of the window.
\<close>

definition sw_windowStart :: "SlidingWindow \<Rightarrow> int \<Rightarrow> int" where
  "sw_windowStart sw now = Unix (Time_Add now (go_int64 (- sw_windowSize sw)))"

definition sw_entries :: "SlidingWindow \<Rightarrow> string \<Rightarrow> int list redis_db \<Rightarrow> int list" where
  "sw_entries sw key db =
     (case redis_GET (redisKey (sw_keyPrefix sw) key) db of None \<Rightarrow> [] | Some zs \<Rightarrow> zs)"

definition sw_retained :: "SlidingWindow \<Rightarrow> int \<Rightarrow> string \<Rightarrow> int list redis_db \<Rightarrow> int list" where
  "sw_retained sw now key db =
     filter (\<lambda>z. \<not> (0 \<le> z \<and> z \<le> sw_windowStart sw now)) (sw_entries sw key db)"

subsection \<open>Consecutive calls\<close>

text \<open>\<open>n\<close> calls of a limiter's \<open>Allow\<close> for one key: the results in order, and the store.\<close>

fun calls ::
  "(string \<Rightarrow> 'conn \<Rightarrow> (go_panic + allow_ret) \<times> 'conn) \<Rightarrow> string \<Rightarrow> nat \<Rightarrow> 'conn
     \<Rightarrow> (go_panic + allow_ret) list \<times> 'conn" where
  "calls allow key 0 conn = ([], conn)"
| "calls allow key (Suc n) conn =
     (case allow key conn of
        (r, conn1) \<Rightarrow> (case calls allow key n conn1 of (rs, conn2) \<Rightarrow> (r # rs, conn2)))"

section \<open>Upstream selection\<close>

subsection \<open>Connection tracker\<close>

text \<open>
  \<open>ConnectionTracker.GetCount\<close> and \<open>GetLeastConnections\<close>. The counters are a Go map:
  a missing key reads as 0. The loop keeps the first URL among those with the least count.
\<close>

type_synonym ConnectionTracker = "string \<rightharpoonup> int"

definition GetCount :: "ConnectionTracker \<Rightarrow> string \<Rightarrow> int" where
  "GetCount ct url = (case ct url of None \<Rightarrow> 0 | Some n \<Rightarrow> n)"

fun leastLoop :: "ConnectionTracker \<Rightarrow> string list \<Rightarrow> string \<times> int \<Rightarrow> string \<times> int" where
  "leastLoop ct [] acc = acc"
| "leastLoop ct (url # rest) (leastURL, leastCount) =
     (if GetCount ct url < leastCount then leastLoop ct rest (url, GetCount ct url)
      else leastLoop ct rest (leastURL, leastCount))"

definition GetLeastConnections :: "ConnectionTracker \<Rightarrow> string list \<Rightarrow> string" where
  "GetLeastConnections ct urls =
     (case urls of
        [] \<Rightarrow> []
      | u # rest \<Rightarrow> fst (leastLoop ct rest (u, GetCount ct u)))"

subsection \<open>Weighted round-robin\<close>

text \<open>
  \<open>NewWeightedRoundRobin\<close> and \<open>WeightedRoundRobin.Next\<close>. The weights are Go
  \<open>int\<close>s; their sums are taken without wrap-around, which sums of configured
  weights do not reach.
\<close>

record WeightedRoundRobin =
  wrr_urls :: "string list"
  wrr_weights :: "int list"
  wrr_current :: "int list"

text \<open>Go's \<open>copy(dst, src)\<close> overwrites the first \<open>min(len(dst), len(src))\<close> elements.\<close>

definition go_copy :: "'a list \<Rightarrow> 'a list \<Rightarrow> 'a list" where
  "go_copy dst src = take (length dst) src @ drop (length src) dst"

definition NewWeightedRoundRobin :: "string list \<Rightarrow> int list \<Rightarrow> WeightedRoundRobin" where
  "NewWeightedRoundRobin urls weights =
     \<lparr>wrr_urls = urls, wrr_weights = weights,
      wrr_current = go_copy (replicate (length urls) 0) weights\<rparr>"

text \<open>The scan for the maximum current weight, over the indices of \<open>urls\<close>.\<close>

fun findMax :: "int list \<Rightarrow> nat list \<Rightarrow> int \<times> nat \<Rightarrow> int \<times> nat" where
  "findMax cur [] acc = acc"
| "findMax cur (i # rest) (maxWeight, maxIndex) =
     (if cur ! i > maxWeight then findMax cur rest (cur ! i, i)
      else findMax cur rest (maxWeight, maxIndex))"

text \<open>
  \<open>Next\<close> returns the chosen URL (the empty string when there is none) and the balancer
  with its current weights updated. Indexing \<open>current\<close> or \<open>weights\<close> beyond their
  length panics.
\<close>

definition Next :: "WeightedRoundRobin \<Rightarrow> go_panic + (string \<times> WeightedRoundRobin)" where
  "Next wrr =
     (if length (wrr_urls wrr) = 0 then Inr ([], wrr)
      else if length (wrr_current wrr) < length (wrr_urls wrr) then Inl IndexOutOfRange
      else
        (let (maxWeight, maxIndex) =
               findMax (wrr_current wrr) [0..<length (wrr_urls wrr)] (- 1, 0);
             totalWeight = sum_list (wrr_weights wrr);
             current1 = (wrr_current wrr)[maxIndex := wrr_current wrr ! maxIndex - totalWeight]
         in if length (wrr_weights wrr) < length current1 then Inl IndexOutOfRange
            else Inr (wrr_urls wrr ! maxIndex,
                      wrr\<lparr>wrr_current := map2 (+) current1 (wrr_weights wrr)\<rparr>)))"

text \<open>\<open>n\<close> selections in a row: the URLs chosen, in order, and the balancer afterwards.\<close>

fun picks :: "nat \<Rightarrow> WeightedRoundRobin \<Rightarrow> go_panic + (string list \<times> WeightedRoundRobin)" where
  "picks 0 wrr = Inr ([], wrr)"
| "picks (Suc n) wrr =
     (case Next wrr of
        Inl p \<Rightarrow> Inl p
      | Inr (url, wrr1) \<Rightarrow>
          (case picks n wrr1 of
             Inl p \<Rightarrow> Inl p
           | Inr (urls, wrr2) \<Rightarrow> Inr (url # urls, wrr2)))"

subsection \<open>Health checker\<close>

text \<open>
  \<open>HealthChecker.checkAll\<close> and \<open>GetHealthyURLs\<close>. The health map is a Go map from
  URL to flag, given here as the list of its entries in the order the iteration visits
  them (any order is possible); it is empty until the first probe has run.
\<close>

type_synonym health_map = "(string \<times> bool) list"

fun health_store :: "string \<Rightarrow> bool \<Rightarrow> health_map \<Rightarrow> health_map" where
  "health_store url b [] = [(url, b)]"
| "health_store url b ((k, v) # m) =
     (if k = url then (k, b) # m else (k, v) # health_store url b m)"

text \<open>\<open>checkAll\<close>, with the probe of a URL (\<open>checkHealth\<close>) given as a function.\<close>

definition checkAll :: "(string \<Rightarrow> bool) \<Rightarrow> string list \<Rightarrow> health_map \<Rightarrow> health_map" where
  "checkAll checkHealth urls healthy =
     fold (\<lambda>url m. health_store url (checkHealth url) m) urls healthy"

definition GetHealthyURLs :: "string list \<Rightarrow> health_map \<Rightarrow> string list" where
  "GetHealthyURLs urls healthy =
     (let healthyURLs = map fst (filter snd healthy)
      in if length healthyURLs = 0 then urls else healthyURLs)"

subsection \<open>Router\<close>

text \<open>
  \<open>NewRouter\<close>, \<open>Router.selectUpstream\<close> and the three policies. An upstream holds the
  health map of its checker, or \<open>None\<close> when no probe path is configured.
\<close>

record Upstream =
  Name :: string
  URLs :: "string list"
  Weights :: "int list"
  Current :: int
  Health :: "health_map option"

record UpstreamConfig =
  cfg_URLs :: "string list"
  cfg_Weight :: int
  cfg_HealthCheckPath :: string

record Router =
  upstreams :: "string \<rightharpoonup> Upstream"
  LoadBalancer :: string
  connTracker :: ConnectionTracker
  weightedBalancers :: "string \<rightharpoonup> WeightedRoundRobin"

text \<open>
  The weights of a group as \<open>NewRouter\<close> builds them: a slice made with one zero per
  URL, to which one weight per URL is then appended.
\<close>

definition NewRouter_Weights :: "UpstreamConfig \<Rightarrow> int list" where
  "NewRouter_Weights upstreamCfg =
     fold (\<lambda>_ ws. ws @ [if cfg_Weight upstreamCfg = 0 then 1 else cfg_Weight upstreamCfg])
       (cfg_URLs upstreamCfg) (replicate (length (cfg_URLs upstreamCfg)) 0)"

definition NewRouter_Upstream :: "string \<Rightarrow> UpstreamConfig \<Rightarrow> Upstream" where
  "NewRouter_Upstream name upstreamCfg =
     \<lparr>Name = name, URLs = cfg_URLs upstreamCfg, Weights = NewRouter_Weights upstreamCfg,
      Current = 0,
      Health = (if cfg_HealthCheckPath upstreamCfg \<noteq> [] then Some [] else None)\<rparr>"

text \<open>The configured groups are a Go map, given as the list of its entries.\<close>

definition NewRouter :: "string \<Rightarrow> (string \<times> UpstreamConfig) list \<Rightarrow> Router" where
  "NewRouter loadBalancer cfgUpstreams =
     fold (\<lambda>(name, upstreamCfg) r.
             (let upstream = NewRouter_Upstream name upstreamCfg;
                  r1 = (if loadBalancer = ''weighted''
                        then r\<lparr>weightedBalancers := (weightedBalancers r)
                                 (name \<mapsto> NewWeightedRoundRobin (URLs upstream) (Weights upstream))\<rparr>
                        else r)
              in r1\<lparr>upstreams := (upstreams r1)(name \<mapsto> upstream)\<rparr>))
       cfgUpstreams
       \<lparr>upstreams = Map.empty, LoadBalancer = loadBalancer, connTracker = Map.empty,
        weightedBalancers = Map.empty\<rparr>"

text \<open>
  The candidate list shared by the three policies: all URLs without a health checker,
  else what the checker reports.
\<close>

definition candidates :: "Upstream \<Rightarrow> string list" where
  "candidates upstream =
     (case Health upstream of
        None \<Rightarrow> URLs upstream
      | Some healthy \<Rightarrow> GetHealthyURLs (URLs upstream) healthy)"

text \<open>
  Each policy returns the URL (the empty string for none), the upstream with its cursor
  and the router with its balancers, or panics on an index out of range.
\<close>

definition roundRobin :: "Router \<Rightarrow> Upstream \<Rightarrow> go_panic + (string \<times> Upstream \<times> Router)" where
  "roundRobin r upstream =
     (if length (URLs upstream) = 0 then Inr ([], upstream, r)
      else
        (let healthyURLs = candidates upstream in
         if Health upstream \<noteq> None \<and> length healthyURLs = 0 then Inr ([], upstream, r)
         else if length healthyURLs = 0 then Inl DivideByZero
         else
           (let cur = go_rem (go_int64 (Current upstream + 1)) (int (length healthyURLs)) in
            if cur < 0 \<or> int (length healthyURLs) \<le> cur then Inl IndexOutOfRange
            else Inr (healthyURLs ! nat cur, upstream\<lparr>Current := cur\<rparr>, r))))"

definition leastConnections :: "Router \<Rightarrow> Upstream \<Rightarrow> go_panic + (string \<times> Upstream \<times> Router)" where
  "leastConnections r upstream =
     (let healthyURLs = candidates upstream in
      if Health upstream \<noteq> None \<and> length healthyURLs = 0 then Inr ([], upstream, r)
      else Inr (GetLeastConnections (connTracker r) healthyURLs, upstream, r))"

definition weighted :: "Router \<Rightarrow> Upstream \<Rightarrow> go_panic + (string \<times> Upstream \<times> Router)" where
  "weighted r upstream =
     (let healthyURLs = candidates upstream in
      if Health upstream \<noteq> None \<and> length healthyURLs = 0 then Inr ([], upstream, r)
      else
        (let balancer = (case weightedBalancers r (Name upstream) of
                           Some b \<Rightarrow> b
                         | None \<Rightarrow> NewWeightedRoundRobin healthyURLs (Weights upstream))
         in case Next balancer of
              Inl p \<Rightarrow> Inl p
            | Inr (url, balancer') \<Rightarrow>
                Inr (url, upstream,
                     r\<lparr>weightedBalancers := (weightedBalancers r)(Name upstream \<mapsto> balancer')\<rparr>)))"

definition selectUpstream :: "Router \<Rightarrow> Upstream \<Rightarrow> go_panic + (string \<times> Upstream \<times> Router)" where
  "selectUpstream r upstream =
     (if length (URLs upstream) = 0 then Inr ([], upstream, r)
      else if LoadBalancer r = ''round_robin'' then roundRobin r upstream
      else if LoadBalancer r = ''least_connections'' then leastConnections r upstream
      else if LoadBalancer r = ''weighted'' then weighted r upstream
      else roundRobin r upstream)"

section \<open>HTTP headers\<close>

text \<open>
  Go's \<open>http.Header\<close> is a map from header name to the list of its values. Its methods
  \<open>Add\<close>, \<open>Set\<close>, \<open>Del\<close> and \<open>Get\<close> first bring the name into canonical form: a
  name made of token characters only gets an upper-case letter at the start and after
  each hyphen and lower-case letters elsewhere; any other name is left as it is.
\<close>

type_synonym Header = "string \<rightharpoonup> string list"

definition isLower :: "char \<Rightarrow> bool" where
  "isLower c = (97 \<le> (of_char c :: nat) \<and> (of_char c :: nat) \<le> 122)"

definition isUpper :: "char \<Rightarrow> bool" where
  "isUpper c = (65 \<le> (of_char c :: nat) \<and> (of_char c :: nat) \<le> 90)"

definition isDigit :: "char \<Rightarrow> bool" where
  "isDigit c = (48 \<le> (of_char c :: nat) \<and> (of_char c :: nat) \<le> 57)"

definition validHeaderFieldByte :: "char \<Rightarrow> bool" where
  "validHeaderFieldByte c =
     (isLower c \<or> isUpper c \<or> isDigit c \<or> c \<in> set ''!#$%&*+-.^_`|~'' \<or> of_char c = (39 :: nat))"

fun canonLoop :: "bool \<Rightarrow> string \<Rightarrow> string" where
  "canonLoop upper [] = []"
| "canonLoop upper (c # cs) =
     (let c' = (if upper \<and> isLower c then char_of ((of_char c :: nat) - 32)
                else if \<not> upper \<and> isUpper c then char_of ((of_char c :: nat) + 32)
                else c)
      in c' # canonLoop (c' = CHR ''-'') cs)"

definition CanonicalMIMEHeaderKey :: "string \<Rightarrow> string" where
  "CanonicalMIMEHeaderKey s = (if list_all validHeaderFieldByte s then canonLoop True s else s)"

definition Header_Values :: "Header \<Rightarrow> string \<Rightarrow> string list" where
  "Header_Values h key = (case h key of None \<Rightarrow> [] | Some vs \<Rightarrow> vs)"

definition Header_Add :: "string \<Rightarrow> string \<Rightarrow> Header \<Rightarrow> Header" where
  "Header_Add key v h =
     h(CanonicalMIMEHeaderKey key \<mapsto> Header_Values h (CanonicalMIMEHeaderKey key) @ [v])"

definition Header_Set :: "string \<Rightarrow> string \<Rightarrow> Header \<Rightarrow> Header" where
  "Header_Set key v h = h(CanonicalMIMEHeaderKey key \<mapsto> [v])"

definition Header_Del :: "string \<Rightarrow> Header \<Rightarrow> Header" where
  "Header_Del key h = h(CanonicalMIMEHeaderKey key := None)"

definition Header_Get :: "Header \<Rightarrow> string \<Rightarrow> string" where
  "Header_Get h key =
     (case Header_Values h (CanonicalMIMEHeaderKey key) of [] \<Rightarrow> [] | v # _ \<Rightarrow> v)"

section \<open>Proxy engine: the upstream request's headers\<close>

text \<open>
  \<open>Router.Proxy\<close>, from the fresh request to the deletions. The caller's header map
  is iterated in an order Go does not fix; it is given as the list of its entries in the
  order of the iteration. Each value is added to the new request's empty header, then
  the hop-by-hop names are deleted.
\<close>

definition copyHeaders :: "(string \<times> string list) list \<Rightarrow> Header \<Rightarrow> Header" where
  "copyHeaders entries h =
     fold (\<lambda>(key, values) h1. fold (\<lambda>v h2. Header_Add key v h2) values h1) entries h"

definition hopByHop :: "string list" where
  "hopByHop = [''Connection'', ''Keep-Alive'', ''Proxy-Authenticate'', ''Proxy-Authorization'',
               ''Te'', ''Trailers'', ''Transfer-Encoding'', ''Upgrade'']"

definition Proxy_Header :: "(string \<times> string list) list \<Rightarrow> Header" where
  "Proxy_Header entries =
     Header_Del ''Upgrade''
       (Header_Del ''Transfer-Encoding''
         (Header_Del ''Trailers''
           (Header_Del ''Te''
             (Header_Del ''Proxy-Authorization''
               (Header_Del ''Proxy-Authenticate''
                 (Header_Del ''Keep-Alive''
                   (Header_Del ''Connection'' (copyHeaders entries Map.empty))))))))"

section \<open>Admission pipeline\<close>

subsection \<open>Request context\<close>

text \<open>
  What the handlers read and write of a \<open>gin.Context\<close>: the request's path, header
  entries and client address; the values stored with \<open>c.Set\<close>; the response's header,
  status and JSON error body; whether \<open>c.Abort()\<close> was called; whether the proxy handler
  was reached; and the label values of each increment of the counters
  \<open>rate_limit_hits_total\<close> and \<open>auth_failures_total\<close>.
\<close>

datatype ctx_value = VString string | VStrings "string list"

record json_body =
  json_error :: string
  json_message :: string
  json_code :: int

record gin_Context =
  c_Path :: string
  c_RequestHeader :: "(string \<times> string list) list"
  c_ClientIP :: string
  c_Keys :: "string \<rightharpoonup> ctx_value"
  c_ResponseHeader :: Header
  c_Status :: "int option"
  c_Body :: "json_body option"
  c_aborted :: bool
  c_reachedProxy :: bool
  c_rateLimitHits :: "(string \<times> string) list"
  c_authFailures :: "(string \<times> string) list"

definition c_GetHeader :: "gin_Context \<Rightarrow> string \<Rightarrow> string" where
  "c_GetHeader c key = Header_Get (map_of (c_RequestHeader c)) key"

definition c_Header :: "string \<Rightarrow> string \<Rightarrow> gin_Context \<Rightarrow> gin_Context" where
  "c_Header key v c =
     (if v = [] then c\<lparr>c_ResponseHeader := Header_Del key (c_ResponseHeader c)\<rparr>
      else c\<lparr>c_ResponseHeader := Header_Set key v (c_ResponseHeader c)\<rparr>)"

definition c_JSON :: "int \<Rightarrow> string \<Rightarrow> string \<Rightarrow> gin_Context \<Rightarrow> gin_Context" where
  "c_JSON code err msg c =
     c\<lparr>c_Status := Some code,
       c_Body := Some \<lparr>json_error = err, json_message = msg, json_code = code\<rparr>\<rparr>"

definition c_Abort :: "gin_Context \<Rightarrow> gin_Context" where
  "c_Abort c = c\<lparr>c_aborted := True\<rparr>"

subsection \<open>Rate-limit middleware\<close>

fun showNat :: "nat \<Rightarrow> string" where
  "showNat n =
     (if n < 10 then [char_of (48 + n)] else showNat (n div 10) @ [char_of (48 + n mod 10)])"

declare showNat.simps [simp del]

definition showInt :: "int \<Rightarrow> string" where
  "showInt i = (if i < 0 then CHR ''-'' # showNat (nat (- i)) else showNat (nat i))"

text \<open>
  \<open>GetHeaders\<close>, as the list of the entries of the map it returns; \<open>now\<close> is
  \<open>time.Now()\<close> in nanoseconds. The reset header is
  \<^verbatim>\<open>time.Now().Add(li.ResetIn).Unix()\<close> and the retry header
  \<^verbatim>\<open>int(li.ResetIn.Seconds())\<close>.
\<close>

definition GetHeaders :: "int \<Rightarrow> LimitInfo \<Rightarrow> (string \<times> string) list" where
  "GetHeaders now li =
     [(''X-RateLimit-Limit'', showInt (Limit li)),
      (''X-RateLimit-Remaining'', showInt (Remaining li)),
      (''X-RateLimit-Reset'', showInt (Unix (Time_Add now (ResetIn li))))]
     @ (if \<not> Allowed li
        then [(''Retry-After'', showInt (int_of_float64 (Duration_Seconds (ResetIn li))))]
        else [])"

text \<open>
  \<open>defaultKeyFunc\<close>: the user id, when the context holds one that is a non-empty
  string, else the client address.
\<close>

definition defaultKeyFunc :: "gin_Context \<Rightarrow> string" where
  "defaultKeyFunc c =
     (case c_Keys c ''user_id'' of
        Some (VString uid) \<Rightarrow> if uid \<noteq> [] then ''user:'' @ uid else ''ip:'' @ c_ClientIP c
      | _ \<Rightarrow> ''ip:'' @ c_ClientIP c)"

text \<open>
  The limiter is the interface value held by the middleware: its \<open>Allow\<close>, from a key
  and the store connection to the result and the connection afterwards.
\<close>

record 'conn RateLimitMiddleware =
  m_limiter :: "string \<Rightarrow> 'conn \<Rightarrow> (go_panic + allow_ret) \<times> 'conn"
  m_enabled :: bool
  m_keyFunc :: "gin_Context \<Rightarrow> string"
  m_algorithm :: string

definition NewRateLimitMiddleware ::
  "(string \<Rightarrow> 'conn \<Rightarrow> (go_panic + allow_ret) \<times> 'conn) \<Rightarrow> bool \<Rightarrow> string
     \<Rightarrow> 'conn RateLimitMiddleware" where
  "NewRateLimitMiddleware limiter enabled algorithm =
     \<lparr>m_limiter = limiter, m_enabled = enabled, m_keyFunc = defaultKeyFunc,
      m_algorithm = algorithm\<rparr>"

text \<open>
  \<open>RateLimitMiddleware.Middleware\<close>. A handler returns the context and the store
  connection; a context that is not aborted goes on to the next handler of the chain
  (\<open>c.Next()\<close>, which every handler here calls last). A panic is caught by the recovery
  handler installed on the engine, which aborts with status 500.
\<close>

definition recovered :: "gin_Context \<Rightarrow> gin_Context" where
  "recovered c = c_Abort (c\<lparr>c_Status := Some 500\<rparr>)"

definition RateLimit_Middleware ::
  "'conn RateLimitMiddleware \<Rightarrow> int \<Rightarrow> gin_Context \<times> 'conn \<Rightarrow> gin_Context \<times> 'conn" where
  "RateLimit_Middleware m now = (\<lambda>(c, conn).
     if \<not> m_enabled m then (c, conn)
     else
       (let key = m_keyFunc m c in
        case m_limiter m key conn of
          (Inl p, conn') \<Rightarrow> (recovered c, conn')
        | (Inr (allowed, limitInfo, Some err), conn') \<Rightarrow> (c, conn')
        | (Inr (allowed, None, None), conn') \<Rightarrow> (recovered c, conn')
        | (Inr (allowed, Some li, None), conn') \<Rightarrow>
            (let c1 = fold (\<lambda>(k, v) c0. c_Header k v c0) (GetHeaders now li) c in
             if \<not> allowed then
               (c_Abort
                  (c_JSON 429 ''Too Many Requests'' ''Rate limit exceeded''
                     (c1\<lparr>c_rateLimitHits := c_rateLimitHits c1 @ [(key, m_algorithm m)]\<rparr>)),
                conn')
             else (c1, conn'))))"

subsection \<open>Authentication middleware\<close>

text \<open>
  \<open>AuthMiddleware.Middleware\<close> with \<open>shouldSkipAuth\<close>, \<open>verifyJWT\<close> and \<open>verifyOIDC\<close>,
  and \<open>Claims.GetUserID\<close>. The verification of a token's signature is a parameter.
\<close>

record Claims =
  Subject :: string
  UserID :: string
  Email :: string
  Roles :: "string list"

definition GetUserID :: "Claims \<Rightarrow> string" where
  "GetUserID cl = (if UserID cl \<noteq> [] then UserID cl else Subject cl)"

text \<open>
  A verifier is a nil-able pointer; its \<open>Verify\<close> maps the Authorization header to the
  claims, or fails.
\<close>

record AuthMiddleware =
  a_jwtVerifier :: "(string \<Rightarrow> Claims option) option"
  a_oidcVerifier :: "(string \<Rightarrow> Claims option) option"
  a_Type :: string
  a_SkipAuthPaths :: "string list"

definition HasPrefix :: "string \<Rightarrow> string \<Rightarrow> bool" where
  "HasPrefix s pre = (take (length pre) s = pre)"

definition shouldSkipAuth :: "AuthMiddleware \<Rightarrow> string \<Rightarrow> bool" where
  "shouldSkipAuth m path = list_ex (\<lambda>skipPath. HasPrefix path skipPath) (a_SkipAuthPaths m)"

definition verifyJWT :: "AuthMiddleware \<Rightarrow> string \<Rightarrow> Claims option" where
  "verifyJWT m token = (case a_jwtVerifier m of None \<Rightarrow> None | Some verify \<Rightarrow> verify token)"

definition verifyOIDC :: "AuthMiddleware \<Rightarrow> string \<Rightarrow> Claims option" where
  "verifyOIDC m token = (case a_oidcVerifier m of None \<Rightarrow> None | Some verify \<Rightarrow> verify token)"

definition unauthorized :: "AuthMiddleware \<Rightarrow> string \<Rightarrow> string \<Rightarrow> gin_Context \<Rightarrow> gin_Context" where
  "unauthorized m reason msg c =
     c_Abort
       (c_JSON 401 ''Unauthorized'' msg
          (c\<lparr>c_authFailures := c_authFailures c @ [(reason, a_Type m)]\<rparr>))"

definition authenticated :: "Claims \<Rightarrow> gin_Context \<Rightarrow> gin_Context" where
  "authenticated claims c =
     c\<lparr>c_Keys := (c_Keys c)
          (''user_id'' \<mapsto> VString (GetUserID claims),
           ''user_email'' \<mapsto> VString (Email claims),
           ''user_roles'' \<mapsto> VStrings (Roles claims))\<rparr>"

definition Auth_Middleware :: "AuthMiddleware \<Rightarrow> gin_Context \<Rightarrow> gin_Context" where
  "Auth_Middleware m c =
     (if shouldSkipAuth m (c_Path c) then c
      else
        (let authHeader = c_GetHeader c ''Authorization'' in
         if authHeader = [] then unauthorized m ''missing_token'' ''Missing Authorization header'' c
         else
           (let result =
                  (if a_Type m = ''jwt'' then Some (verifyJWT m authHeader)
                   else if a_Type m = ''oidc'' then Some (verifyOIDC m authHeader)
                   else if a_Type m = ''both'' then
                     Some (case verifyJWT m authHeader of
                             Some cl \<Rightarrow> Some cl
                           | None \<Rightarrow> verifyOIDC m authHeader)
                   else if a_Type m = ''mock'' then
                     Some (Some \<lparr>Subject = ''mock-user'', UserID = ''mock-user-id'',
                                  Email = ''mock@example.com'', Roles = [''user'']\<rparr>)
                   else None)
            in case result of
                 None \<Rightarrow>
                   c_Abort (c_JSON 500 ''Internal Server Error''
                              ''Invalid authentication configuration'' c)
               | Some None \<Rightarrow>
                   unauthorized m ''invalid_token'' ''Invalid or expired token'' c
               | Some (Some claims) \<Rightarrow> authenticated claims c)))"

subsection \<open>The handler chain of the /v1 group\<close>

datatype handler = HRateLimit | HAuth | HProxy

record 'conn Gateway =
  rateLimitMiddleware :: "'conn RateLimitMiddleware option"
  authMiddleware :: "AuthMiddleware option"

text \<open>
  \<open>setupRouter\<close> registers the handlers of the group in this order: the rate-limit
  middleware if there is one, the authentication middleware if there is one, then the
  proxy handler.
\<close>

definition setupRouter_v1 :: "'conn Gateway \<Rightarrow> handler list" where
  "setupRouter_v1 g =
     (if rateLimitMiddleware g \<noteq> None then [HRateLimit] else [])
     @ (if authMiddleware g \<noteq> None then [HAuth] else [])
     @ [HProxy]"

text \<open>
  The proxy handler is the end of the chain; what it sends upstream is not part of the
  admission decision, so it only records that the request reached it.
\<close>

definition run_handler ::
  "'conn Gateway \<Rightarrow> int \<Rightarrow> handler \<Rightarrow> gin_Context \<times> 'conn \<Rightarrow> gin_Context \<times> 'conn" where
  "run_handler g now h s =
     (case h of
        HRateLimit \<Rightarrow>
          (case rateLimitMiddleware g of None \<Rightarrow> s | Some m \<Rightarrow> RateLimit_Middleware m now s)
      | HAuth \<Rightarrow>
          (case authMiddleware g of None \<Rightarrow> s | Some m \<Rightarrow> (Auth_Middleware m (fst s), snd s))
      | HProxy \<Rightarrow> ((fst s)\<lparr>c_reachedProxy := True\<rparr>, snd s))"

fun run_handlers ::
  "'conn Gateway \<Rightarrow> int \<Rightarrow> handler list \<Rightarrow> gin_Context \<times> 'conn \<Rightarrow> gin_Context \<times> 'conn" where
  "run_handlers g now [] s = s"
| "run_handlers g now (h # hs) s =
     (let s' = run_handler g now h s in
      if c_aborted (fst s') then s' else run_handlers g now hs s')"

definition serve_v1 :: "'conn Gateway \<Rightarrow> int \<Rightarrow> gin_Context \<times> 'conn \<Rightarrow> gin_Context \<times> 'conn" where
  "serve_v1 g now s = run_handlers g now (setupRouter_v1 g) s"

section \<open>Concrete configurations and requests\<close>

text \<open>
  The inputs at which the theorems below evaluate the code: limiters with the default
  key prefix, a request to a proxied path without credentials, a request context after
  authentication, and an upstream group of three URLs.
\<close>

definition tb_2_1 :: TokenBucket where
  "tb_2_1 = \<lparr>tb_keyPrefix = ''ratelimit:'', tb_bucketSize = 2, tb_refillRate = 1\<rparr>"

definition tb_10_2 :: TokenBucket where
  "tb_10_2 = \<lparr>tb_keyPrefix = ''ratelimit:'', tb_bucketSize = 10, tb_refillRate = 2\<rparr>"

definition tb_fast :: TokenBucket where
  "tb_fast = \<lparr>tb_keyPrefix = ''ratelimit:'', tb_bucketSize = 1, tb_refillRate = 2000000000\<rparr>"

definition lb_10_2 :: LeakyBucket where
  "lb_10_2 = \<lparr>lb_keyPrefix = ''ratelimit:'', lb_capacity = 10, lb_leakRate = 2\<rparr>"

definition sw_1_60 :: SlidingWindow where
  "sw_1_60 = \<lparr>sw_keyPrefix = ''ratelimit:'', sw_limit = 1, sw_windowSize = 60 * Second\<rparr>"

definition anon_request :: gin_Context where
  "anon_request =
     \<lparr>c_Path = ''/v1/svcA/ping'', c_RequestHeader = [(''Accept'', [''*/*''])],
      c_ClientIP = ''10.0.0.1'', c_Keys = Map.empty, c_ResponseHeader = Map.empty,
      c_Status = None, c_Body = None, c_aborted = False, c_reachedProxy = False,
      c_rateLimitHits = [], c_authFailures = []\<rparr>"

definition alice_request :: gin_Context where
  "alice_request = anon_request\<lparr>c_Keys := [''user_id'' \<mapsto> VString ''alice'']\<rparr>"

definition jwt_auth :: AuthMiddleware where
  "jwt_auth =
     \<lparr>a_jwtVerifier = Some (\<lambda>token. None), a_oidcVerifier = None, a_Type = ''jwt'',
      a_SkipAuthPaths = [''/health'', ''/ready'', ''/metrics'']\<rparr>"

definition gateway_of ::
  "(string \<Rightarrow> 'conn \<Rightarrow> (go_panic + allow_ret) \<times> 'conn) \<Rightarrow> string \<Rightarrow> 'conn Gateway" where
  "gateway_of limiter algorithm =
     \<lparr>rateLimitMiddleware = Some (NewRateLimitMiddleware limiter True algorithm),
      authMiddleware = Some jwt_auth\<rparr>"

definition gateway_tb :: "int \<Rightarrow> tb_hash redis_conn Gateway" where
  "gateway_tb t = gateway_of (TokenBucket_Allow tb_2_1 t) ''token_bucket''"

definition gateway_lb :: "int \<Rightarrow> lb_hash redis_conn Gateway" where
  "gateway_lb t = gateway_of (LeakyBucket_Allow lb_10_2 t) ''leaky_bucket''"

definition gateway_sw :: "int \<Rightarrow> int list redis_conn Gateway" where
  "gateway_sw now = gateway_of (SlidingWindow_Allow sw_1_60 now) ''sliding_window''"

definition group_cfg :: UpstreamConfig where
  "group_cfg = \<lparr>cfg_URLs = [''u1'', ''u2'', ''u3''], cfg_Weight = 5, cfg_HealthCheckPath = []\<rparr>"

definition router_wrr :: WeightedRoundRobin where
  "router_wrr = NewWeightedRoundRobin (cfg_URLs group_cfg) (NewRouter_Weights group_cfg)"

text \<open>
  The balancer over three URLs with the weights 5, 1 and 1, at given current weights,
  and the current weights it runs through from its initial state.
\<close>

definition swrr :: "string \<Rightarrow> string \<Rightarrow> string \<Rightarrow> int list \<Rightarrow> WeightedRoundRobin" where
  "swrr u1 u2 u3 cur = \<lparr>wrr_urls = [u1, u2, u3], wrr_weights = [5, 1, 1], wrr_current = cur\<rparr>"

definition cycle :: "int list list" where
  "cycle = [[5, 1, 1], [3, 2, 2], [1, 3, 3], [6, - 3, 4], [4, - 2, 5], [9, - 1, - 1], [7, 0, 0]]"

definition caller_headers :: "(string \<times> string list) list" where
  "caller_headers =
     [(''Connection'', [''keep-alive'']), (''Accept'', [''text/html'', ''*/*'']),
      (''X-Request-Id'', [''42''])]"

definition probed_cfg :: UpstreamConfig where
  "probed_cfg = \<lparr>cfg_URLs = [''u1'', ''u2''], cfg_Weight = 0, cfg_HealthCheckPath = ''/health''\<rparr>"

definition upstream_fresh :: Upstream where
  "upstream_fresh = NewRouter_Upstream ''svcA'' probed_cfg"

definition upstream_probed :: Upstream where
  "upstream_probed =
     upstream_fresh\<lparr>Health := Some (checkAll (\<lambda>url. url = ''u2'') (URLs upstream_fresh) [])\<rparr>"

definition rr_router :: Router where
  "rr_router = NewRouter ''round_robin'' [(''svcA'', probed_cfg)]"

definition weighted_router :: Router where
  "weighted_router = NewRouter ''weighted'' [(''svcA'', probed_cfg)]"

text \<open>
  A group with a health probe whose only configured URL is the empty string, and the
  router built for it under a given policy.
\<close>

definition blank_cfg :: UpstreamConfig where
  "blank_cfg = \<lparr>cfg_URLs = [[]], cfg_Weight = 0, cfg_HealthCheckPath = ''/health''\<rparr>"

definition blank_upstream :: Upstream where
  "blank_upstream = NewRouter_Upstream ''svcA'' blank_cfg"

definition blank_router :: "string \<Rightarrow> Router" where
  "blank_router policy = NewRouter policy [(''svcA'', blank_cfg)]"

section \<open>Machine arithmetic\<close>

lemma go_int64_id: "- (2 ^ 63) \<le> x \<Longrightarrow> x < 2 ^ 63 \<Longrightarrow> go_int64 x = x"
  unfolding go_int64_def by (simp add: signed_take_bit_int_eq_self)

lemma whole_seconds:
  assumes "0 \<le> w" and "w < 2 ^ 63"
  shows "go_int64 (go_int64 (go_quot w Second) * Second) = (w div Second) * Second"
proof -
  have q: "go_quot w Second = w div Second"
    using assms by (simp add: go_quot_def Second_def)
  have a: "0 \<le> w div Second"
    using assms by (simp add: Second_def pos_imp_zdiv_nonneg_iff)
  have b: "(w div Second) * Second \<le> w"
    by (simp add: Second_def)
  have c: "w div Second \<le> w"
    using zdiv_mono2 [of w 1 Second] assms(1) by (simp add: Second_def)
  have "go_int64 (w div Second) = w div Second"
    using a c assms by (intro go_int64_id) auto
  moreover have "go_int64 ((w div Second) * Second) = (w div Second) * Second"
    using a b assms by (intro go_int64_id) (auto simp: Second_def)
  ultimately show ?thesis by (simp add: q)
qed

subsection \<open>Integers are exact in \<open>float64\<close> below \<open>2\<^sup>5\<^sup>3\<close>\<close>

lemma round_half_even_of_int: "round_half_even (of_int n) = n"
  by (simp add: round_half_even_def)

lemma f64_exponent_of_int:
  "1 \<le> i \<Longrightarrow> i < 2 ^ 53 \<Longrightarrow> 2 ^ 52 \<le> i * 2 ^ n \<Longrightarrow>
     \<exists>k. f64_exponent n (of_int i) = - int k \<and> 2 ^ 52 \<le> i * 2 ^ k \<and> i * 2 ^ k < 2 ^ 53"
proof (induction n arbitrary: i)
  case 0
  then show ?case
    by (intro exI [where x = 0]) simp
next
  case (Suc n)
  show ?case
  proof (cases "i < 2 ^ 52")
    case True
    have "f64_exponent (Suc n) (of_int i) = f64_exponent n (of_int (2 * i)) - 1"
      using True Suc.prems(2) by (simp add: mult.commute)
    moreover obtain k where
      "f64_exponent n (of_int (2 * i)) = - int k \<and> 2 ^ 52 \<le> (2 * i) * 2 ^ k \<and>
       (2 * i) * 2 ^ k < 2 ^ 53"
      using Suc.IH [of "2 * i"] True Suc.prems by (auto simp: mult.assoc mult.left_commute)
    ultimately show ?thesis
      by (intro exI [where x = "Suc k"]) (simp add: mult.assoc mult.left_commute)
  next
    case False
    then show ?thesis
      using Suc.prems(2) by (intro exI [where x = 0]) simp
  qed
qed

lemma f64_of_int:
  assumes "0 \<le> i" and "i < 2 ^ 53"
  shows "f64 (of_int i) = of_int i"
proof (cases "i = 0")
  case True
  then show ?thesis by (simp add: f64_def)
next
  case False
  then have i: "1 \<le> i" using assms(1) by simp
  have "(2::int) ^ 52 \<le> 2 ^ 2200"
    by (rule power_increasing) simp_all
  also have "\<dots> \<le> i * 2 ^ 2200"
    using i by (simp add: mult_le_cancel_right1)
  finally obtain k where k:
    "f64_exponent 2200 (of_int i) = - int k" "2 ^ 52 \<le> i * 2 ^ k" "i * 2 ^ k < 2 ^ 53"
    using f64_exponent_of_int [OF i assms(2), of 2200] by blast
  have "(2::int) ^ k \<le> i * 2 ^ k"
    using i by (simp add: mult_le_cancel_right1)
  then have "(2::int) ^ k < 2 ^ 53"
    using k(3) by (rule le_less_trans)
  then have k53: "k < 53"
    by (rule power_less_imp_less_exp [rotated]) simp
  have p: "pow2 (- int k) = 1 / 2 ^ k"
    by (cases "k = 0") (simp_all add: pow2_def)
  have m: "max (- int k) (- 1074) = - int k"
    using k53 by simp
  have a: "\<bar>of_int i :: rat\<bar> = of_int i" "sgn (of_int i :: rat) = 1"
    using i by simp_all
  have "\<bar>of_int i :: rat\<bar> / pow2 (- int k) = of_int (i * 2 ^ k)"
    by (simp add: a p)
  then have "round_half_even (\<bar>of_int i :: rat\<bar> / pow2 (- int k)) = i * 2 ^ k"
    by (simp only: round_half_even_of_int)
  then show ?thesis
    using False by (simp add: f64_def k(1) m a p del: of_int_abs)
qed

lemma int_of_float64_of_int: "int_of_float64 (of_int s) = s"
  by (simp add: int_of_float64_def)

text \<open>
  So \<open>int(d.Seconds())\<close> of a whole number of seconds, which every duration
  \<open>s * Second\<close> in the range of 64 bits is, gives that number back.
\<close>

lemma Duration_Seconds_whole:
  assumes "0 \<le> s" and "s < 2 ^ 53"
  shows "int_of_float64 (Duration_Seconds (s * Second)) = s"
proof -
  have q: "go_quot (s * Second) Second = s" "go_rem (s * Second) Second = 0"
    using assms(1) by (simp_all add: go_rem_def go_quot_def Second_def zero_le_mult_iff)
  have z: "f64 0 = 0"
    by (simp add: f64_def)
  show ?thesis
    by (simp add: Duration_Seconds_def q z f64_of_int [OF assms] int_of_float64_of_int)
qed

section \<open>The rate-limit key\<close>

lemma defaultKeyFunc_alice: "defaultKeyFunc alice_request = ''user:alice''"
  by (simp add: defaultKeyFunc_def alice_request_def anon_request_def)

text \<open>
  C9 does not hold as stated: for a request whose context holds the user id
  \<open>alice\<close>, the key is \<open>user:alice\<close> and not \<open>principal:alice\<close>.
\<close>

theorem defaultKeyFunc_not_principal:
  "defaultKeyFunc alice_request \<noteq> ''principal:alice''"
  by (simp add: defaultKeyFunc_alice)

text \<open>
  C9 (amended): the key computed by the default key function is \<open>user:\<close> followed by
  the user id when the request context holds a non-empty string under \<open>user_id\<close>, and
  \<open>ip:\<close> followed by the client address otherwise.
\<close>

theorem defaultKeyFunc_key:
  "(c_Keys c ''user_id'' = Some (VString uid) \<and> uid \<noteq> [] \<longrightarrow>
      defaultKeyFunc c = ''user:'' @ uid) \<and>
   ((\<nexists>u. c_Keys c ''user_id'' = Some (VString u) \<and> u \<noteq> []) \<longrightarrow>
      defaultKeyFunc c = ''ip:'' @ c_ClientIP c)"
  by (auto simp: defaultKeyFunc_def split: option.splits ctx_value.splits)

theorem defaultKeyFunc_key_witness:
  "defaultKeyFunc alice_request = ''user:alice'' \<and>
   defaultKeyFunc anon_request = ''ip:10.0.0.1''"
  using defaultKeyFunc_key [of alice_request "''alice''"] defaultKeyFunc_key [of anon_request]
  by (simp add: alice_request_def anon_request_def)

lemma defaultKeyFunc_authenticated:
  "GetUserID claims \<noteq> [] \<Longrightarrow>
     defaultKeyFunc (authenticated claims c) = ''user:'' @ GetUserID claims"
  by (simp add: defaultKeyFunc_def authenticated_def)

section \<open>Order of the admission stages\<close>

lemma setupRouter_v1_order:
  "rateLimitMiddleware g \<noteq> None \<Longrightarrow> authMiddleware g \<noteq> None
     \<Longrightarrow> setupRouter_v1 g = [HRateLimit, HAuth, HProxy]"
  by (simp add: setupRouter_v1_def)

text \<open>
  Whatever authentication decides, the store after a request has gone through the chain
  is the store that the limiter's \<open>Allow\<close> left, called with the key of the context as it
  came in.
\<close>

lemma run_handlers_after_RateLimit:
  "HRateLimit \<notin> set hs \<Longrightarrow> snd (run_handlers g now hs s) = snd s"
proof (induction hs arbitrary: s)
  case Nil
  then show ?case by simp
next
  case (Cons h hs)
  have "snd (run_handler g now h s) = snd s"
    using Cons.prems by (cases h) (auto simp: run_handler_def split: option.splits)
  then show ?case
    using Cons by (simp add: Let_def)
qed

lemma RateLimit_Middleware_store:
  "m_enabled m \<Longrightarrow>
     snd (RateLimit_Middleware m now (c, conn)) = snd (m_limiter m (m_keyFunc m c) conn)"
  by (auto simp: RateLimit_Middleware_def Let_def split: prod.splits sum.splits option.splits)

lemma serve_v1_store:
  assumes "rateLimitMiddleware g = Some m" and "m_enabled m"
  shows "snd (serve_v1 g now (c, conn)) = snd (m_limiter m (m_keyFunc m c) conn)"
proof -
  have rest: "HRateLimit \<notin> set ((if authMiddleware g \<noteq> None then [HAuth] else []) @ [HProxy])"
    by simp
  have first: "snd (run_handler g now HRateLimit (c, conn))
                 = snd (m_limiter m (m_keyFunc m c) conn)"
    using assms by (simp add: run_handler_def RateLimit_Middleware_store)
  show ?thesis
    using assms(1) first run_handlers_after_RateLimit [OF rest, of g now]
    by (simp add: serve_v1_def setupRouter_v1_def Let_def)
qed

text \<open>
  C1: the handler chain of the /v1 group runs the rate limiter before authentication.
  A request without credentials, served by a gateway with a token bucket of size 2 on an
  empty store, is answered 401 without reaching the proxy, and the bucket of its
  client address has lost a token.
\<close>

theorem rate_limit_runs_before_auth:
  "setupRouter_v1 (gateway_tb 100) = [HRateLimit, HAuth, HProxy] \<and>
   c_Status (fst (serve_v1 (gateway_tb 100) (100 * Second) (anon_request, Connected Map.empty)))
     = Some 401 \<and>
   \<not> c_reachedProxy
       (fst (serve_v1 (gateway_tb 100) (100 * Second) (anon_request, Connected Map.empty))) \<and>
   redis_GET ''ratelimit::ip:10.0.0.1''
       (conn_db (snd (serve_v1 (gateway_tb 100) (100 * Second)
                        (anon_request, Connected Map.empty))))
     = Some \<lparr>tokens = 1, last_refill = 100\<rparr>"
  by code_simp

section \<open>Store failure\<close>

lemma RateLimit_Middleware_error:
  "m_limiter m (m_keyFunc m c) conn = (Inr (b, li, Some err), conn)
     \<Longrightarrow> RateLimit_Middleware m now (c, conn) = (c, conn)"
  by (simp add: RateLimit_Middleware_def split: option.splits)

lemma run_handlers_RateLimit_error:
  assumes "m_limiter m (m_keyFunc m c) conn = (Inr (b, li, Some err), conn)"
    and "rateLimitMiddleware g = Some m \<and> \<not> c_aborted c"
  shows "run_handlers g now (HRateLimit # hs) (c, conn) = run_handlers g now hs (c, conn)"
  using assms RateLimit_Middleware_error [OF assms(1), of now]
  by (simp add: run_handler_def Let_def)

lemma TokenBucket_Allow_Unavailable:
  "tb_refillRate tb \<noteq> 0 \<Longrightarrow>
     TokenBucket_Allow tb t key Unavailable = (Inr (False, None, Some RedisError), Unavailable)"
  by (simp add: TokenBucket_Allow_def)

lemma LeakyBucket_Allow_Unavailable:
  "LeakyBucket_Allow lb t key Unavailable = (Inr (False, None, Some RedisError), Unavailable)"
  by (simp add: LeakyBucket_Allow_def)

lemma SlidingWindow_Allow_Unavailable:
  "SlidingWindow_Allow sw t key Unavailable = (Inr (False, None, Some RedisError), Unavailable)"
  by (simp add: SlidingWindow_Allow_def Let_def)

text \<open>
  C7: when the store fails, each limiter's \<open>Allow\<close> returns \<open>(false, nil, error)\<close>
  (the token bucket with a refill rate other than zero: with zero it panics on the
  division that precedes the call to the store). The middleware then returns the context
  as it was, so no header and no status is written and the request is not aborted, and
  the chain goes on with the handlers after it.
\<close>

theorem store_error_fails_open:
  "(m_limiter mt = TokenBucket_Allow tb t \<and> tb_refillRate tb \<noteq> 0 \<longrightarrow>
      TokenBucket_Allow tb t key Unavailable = (Inr (False, None, Some RedisError), Unavailable) \<and>
      RateLimit_Middleware mt now (c, Unavailable) = (c, Unavailable) \<and>
      (rateLimitMiddleware gt = Some mt \<and> \<not> c_aborted c \<longrightarrow>
         run_handlers gt now (HRateLimit # hs) (c, Unavailable)
           = run_handlers gt now hs (c, Unavailable))) \<and>
   (m_limiter ml = LeakyBucket_Allow lb t \<longrightarrow>
      LeakyBucket_Allow lb t key Unavailable = (Inr (False, None, Some RedisError), Unavailable) \<and>
      RateLimit_Middleware ml now (c, Unavailable) = (c, Unavailable) \<and>
      (rateLimitMiddleware gl = Some ml \<and> \<not> c_aborted c \<longrightarrow>
         run_handlers gl now (HRateLimit # hs) (c, Unavailable)
           = run_handlers gl now hs (c, Unavailable))) \<and>
   (m_limiter ms = SlidingWindow_Allow sw t' \<longrightarrow>
      SlidingWindow_Allow sw t' key Unavailable = (Inr (False, None, Some RedisError), Unavailable) \<and>
      RateLimit_Middleware ms now (c, Unavailable) = (c, Unavailable) \<and>
      (rateLimitMiddleware gs = Some ms \<and> \<not> c_aborted c \<longrightarrow>
         run_handlers gs now (HRateLimit # hs) (c, Unavailable)
           = run_handlers gs now hs (c, Unavailable)))"
proof (intro conjI impI)
  assume h: "m_limiter mt = TokenBucket_Allow tb t \<and> tb_refillRate tb \<noteq> 0"
  then have a: "m_limiter mt (m_keyFunc mt c) Unavailable
                  = (Inr (False, None, Some RedisError), Unavailable)"
    by (simp add: TokenBucket_Allow_Unavailable)
  show "TokenBucket_Allow tb t key Unavailable = (Inr (False, None, Some RedisError), Unavailable)"
    using h by (simp add: TokenBucket_Allow_Unavailable)
  show "RateLimit_Middleware mt now (c, Unavailable) = (c, Unavailable)"
    using a by (rule RateLimit_Middleware_error)
  assume "rateLimitMiddleware gt = Some mt \<and> \<not> c_aborted c"
  then show "run_handlers gt now (HRateLimit # hs) (c, Unavailable)
               = run_handlers gt now hs (c, Unavailable)"
    by (rule run_handlers_RateLimit_error [OF a])
next
  assume h: "m_limiter ml = LeakyBucket_Allow lb t"
  then have a: "m_limiter ml (m_keyFunc ml c) Unavailable
                  = (Inr (False, None, Some RedisError), Unavailable)"
    by (simp add: LeakyBucket_Allow_Unavailable)
  show "LeakyBucket_Allow lb t key Unavailable = (Inr (False, None, Some RedisError), Unavailable)"
    by (rule LeakyBucket_Allow_Unavailable)
  show "RateLimit_Middleware ml now (c, Unavailable) = (c, Unavailable)"
    using a by (rule RateLimit_Middleware_error)
  assume "rateLimitMiddleware gl = Some ml \<and> \<not> c_aborted c"
  then show "run_handlers gl now (HRateLimit # hs) (c, Unavailable)
               = run_handlers gl now hs (c, Unavailable)"
    by (rule run_handlers_RateLimit_error [OF a])
next
  assume h: "m_limiter ms = SlidingWindow_Allow sw t'"
  then have a: "m_limiter ms (m_keyFunc ms c) Unavailable
                  = (Inr (False, None, Some RedisError), Unavailable)"
    by (simp add: SlidingWindow_Allow_Unavailable)
  show "SlidingWindow_Allow sw t' key Unavailable
          = (Inr (False, None, Some RedisError), Unavailable)"
    by (rule SlidingWindow_Allow_Unavailable)
  show "RateLimit_Middleware ms now (c, Unavailable) = (c, Unavailable)"
    using a by (rule RateLimit_Middleware_error)
  assume "rateLimitMiddleware gs = Some ms \<and> \<not> c_aborted c"
  then show "run_handlers gs now (HRateLimit # hs) (c, Unavailable)
               = run_handlers gs now hs (c, Unavailable)"
    by (rule run_handlers_RateLimit_error [OF a])
qed

theorem store_error_fails_open_witness:
  "tb_refillRate tb_2_1 \<noteq> 0 \<and>
   run_handlers (gateway_tb 100) (100 * Second) [HRateLimit, HAuth, HProxy]
       (anon_request, Unavailable)
     = run_handlers (gateway_tb 100) (100 * Second) [HAuth, HProxy] (anon_request, Unavailable) \<and>
   run_handlers (gateway_lb 100) (100 * Second) [HRateLimit, HAuth, HProxy]
       (anon_request, Unavailable)
     = run_handlers (gateway_lb 100) (100 * Second) [HAuth, HProxy] (anon_request, Unavailable) \<and>
   run_handlers (gateway_sw (100 * Second)) (100 * Second) [HRateLimit, HAuth, HProxy]
       (anon_request, Unavailable)
     = run_handlers (gateway_sw (100 * Second)) (100 * Second) [HAuth, HProxy]
         (anon_request, Unavailable)"
  using store_error_fails_open
    [where mt = "NewRateLimitMiddleware (TokenBucket_Allow tb_2_1 100) True ''token_bucket''"
       and tb = tb_2_1 and t = 100 and gt = "gateway_tb 100"
       and ml = "NewRateLimitMiddleware (LeakyBucket_Allow lb_10_2 100) True ''leaky_bucket''"
       and lb = lb_10_2 and gl = "gateway_lb 100"
       and ms = "NewRateLimitMiddleware (SlidingWindow_Allow sw_1_60 (100 * Second)) True
                   ''sliding_window''"
       and sw = sw_1_60 and t' = "100 * Second" and gs = "gateway_sw (100 * Second)"
       and c = anon_request and hs = "[HAuth, HProxy]" and now = "100 * Second"]
  by (simp add: gateway_tb_def gateway_lb_def gateway_sw_def gateway_of_def
        NewRateLimitMiddleware_def tb_2_1_def anon_request_def)

section \<open>Time to live of the limiter keys\<close>

text \<open>
  C4: with bucket size 10 and refill rate 2 the token bucket passes 5000000000 to
  \<open>EXPIRE\<close>, and so does the leaky bucket with capacity 10 and leak rate 2: the
  \<^verbatim>\<open>time.Duration\<close> quotient is a number of nanoseconds, used as a number of seconds.
  The stated time to live is \<open>ceil(10/2) = 5\<close> seconds.
\<close>

theorem bucket_ttl_is_nanoseconds:
  "redis_TTL ''ratelimit::k''
       (conn_db (snd (TokenBucket_Allow tb_10_2 100 ''k'' (Connected Map.empty))))
     = Some 5000000000 \<and>
   redis_TTL ''ratelimit::k''
       (conn_db (snd (LeakyBucket_Allow lb_10_2 100 ''k'' (Connected Map.empty))))
     = Some 5000000000 \<and>
   lua_ceil_div 10 2 = 5"
  by code_simp

section \<open>Token bucket\<close>

text \<open>
  C2: with bucket size 1 and refill rate 2000000000 the time to live computed by
  \<open>Allow\<close> is \<open>1000000000 / 2000000000 = 0\<close>, so \<open>EXPIRE\<close> deletes the key that the
  script has just written: the store is empty again after the first call, and the second
  call at the same time (call number B + 1) is allowed as well.
\<close>

theorem token_bucket_zero_ttl_never_denies:
  "tb_window tb_fast = 0 \<and>
   TokenBucket_Allow tb_fast 100 ''k'' (Connected Map.empty)
     = (Inr (True, Some \<lparr>Allowed = True, Remaining = 0, Limit = 1, ResetIn = Second\<rparr>, None),
        Connected Map.empty) \<and>
   fst (TokenBucket_Allow tb_fast 100 ''k''
          (snd (TokenBucket_Allow tb_fast 100 ''k'' (Connected Map.empty))))
     = Inr (True, Some \<lparr>Allowed = True, Remaining = 0, Limit = 1, ResetIn = Second\<rparr>, None)"
proof -
  have w: "tb_window tb_fast = 0"
    by (simp add: tb_window_def tb_fast_def go_quot_def Second_def go_int64_def
          signed_take_bit_eq_take_bit_minus take_bit_eq_mod bit_iff_odd)
  have a: "TokenBucket_Allow tb_fast 100 ''k'' (Connected Map.empty)
     = (Inr (True, Some \<lparr>Allowed = True, Remaining = 0, Limit = 1, ResetIn = Second\<rparr>, None),
        Connected Map.empty)"
    by (simp add: TokenBucket_Allow_def w)
       (simp add: tb_fast_def tb_script_def redis_GET_def redis_SET_def redis_EXPIRE_def
          redis_TTL_def parse_reply_def lua_ceil_div_def Second_def go_int64_def
          signed_take_bit_eq_take_bit_minus take_bit_eq_mod bit_iff_odd)
  show ?thesis
    by (simp add: w a)
qed

section \<open>Sliding window\<close>

text \<open>
  A window of 60 seconds: \<open>int(W.Seconds())\<close> is 60 and \<open>-W\<close> does not wrap, so
  \<open>Allow\<close> runs the script with the window start \<open>Unix (now - 60 s)\<close> and the window
  length 60.
\<close>

lemma SlidingWindow_Allow_sw_1_60:
  "SlidingWindow_Allow sw_1_60 now key conn =
     (case conn of
        Unavailable \<Rightarrow> (Inr (False, None, Some RedisError), conn)
      | Connected db \<Rightarrow>
          (case sw_script (redisKey ''ratelimit:'' key) 1 (Unix (now - 60 * Second)) (Unix now) 60 db
           of (results, db') \<Rightarrow> (Inr (parse_reply 1 results), Connected db')))"
proof -
  have s: "int_of_float64 (Duration_Seconds (60 * Second)) = 60"
    by (rule Duration_Seconds_whole) simp_all
  have n: "go_int64 (- (60 * Second)) = - (60 * Second)"
    by (rule go_int64_id) (simp_all add: Second_def)
  show ?thesis
    by (simp add: SlidingWindow_Allow_def sw_1_60_def s n Time_Add_def Let_def
          split: redis_conn.splits)
qed

text \<open>
  C5: a sliding window of limit 1 and 60 seconds, called twice within the same second
  on an unused key, denies the second call with \<open>Remaining = 0\<close> and \<open>ResetIn = 0\<close>:
  the wait is computed as the age of the oldest entry, which is zero here.
\<close>

theorem sliding_window_denies_with_zero_reset:
  "fst (SlidingWindow_Allow sw_1_60 (100 * Second) ''k''
          (snd (SlidingWindow_Allow sw_1_60 (100 * Second) ''k'' (Connected Map.empty))))
     = Inr (False, Some \<lparr>Allowed = False, Remaining = 0, Limit = 1, ResetIn = 0\<rparr>, None)"
  unfolding SlidingWindow_Allow_sw_1_60 by code_simp

lemma ZCARD_after_ZREMRANGEBYSCORE:
  "redis_ZCARD rk (redis_ZREMRANGEBYSCORE rk lo hi db)
     = int (length (filter (\<lambda>z. \<not> (lo \<le> z \<and> z \<le> hi))
                      (case redis_GET rk db of None \<Rightarrow> [] | Some zs \<Rightarrow> zs)))"
  by (auto simp: redis_ZCARD_def redis_ZREMRANGEBYSCORE_def redis_GET_def Let_def
           split: option.splits)

lemma sw_script_allowed:
  assumes "redis_ZCARD rk (redis_ZREMRANGEBYSCORE rk 0 ws db) < limit"
  shows "fst (sw_script rk limit ws we wsz db)
           = [1, limit - redis_ZCARD rk (redis_ZREMRANGEBYSCORE rk 0 ws db) - 1, wsz]"
  using assms by (simp add: sw_script_def Let_def)

lemma sw_script_denied:
  assumes "\<not> redis_ZCARD rk (redis_ZREMRANGEBYSCORE rk 0 ws db) < limit"
  shows "fst (sw_script rk limit ws we wsz db)
           = [0, 0, case redis_ZRANGE_first rk (redis_ZREMRANGEBYSCORE rk 0 ws db) of
                      None \<Rightarrow> 0 | Some oldest_time \<Rightarrow> ws + wsz - oldest_time]"
  using assms by (simp add: sw_script_def Let_def)

lemma SlidingWindow_Allow_Connected:
  "fst (SlidingWindow_Allow sw now key (Connected db))
     = Inr (parse_reply (sw_limit sw)
              (fst (sw_script (redisKey (sw_keyPrefix sw) key) (sw_limit sw)
                      (sw_windowStart sw now) (Unix now)
                      (int_of_float64 (Duration_Seconds (sw_windowSize sw))) db)))"
  by (simp add: SlidingWindow_Allow_def sw_windowStart_def Let_def split: prod.splits)

lemma sw_retained_card:
  "redis_ZCARD (redisKey (sw_keyPrefix sw) key)
       (redis_ZREMRANGEBYSCORE (redisKey (sw_keyPrefix sw) key) 0 (sw_windowStart sw now) db)
     = int (length (sw_retained sw now key db))"
  by (simp add: ZCARD_after_ZREMRANGEBYSCORE sw_retained_def sw_entries_def)

lemma ZRANGE_first_after_ZREMRANGEBYSCORE:
  "redis_ZRANGE_first (redisKey (sw_keyPrefix sw) key)
       (redis_ZREMRANGEBYSCORE (redisKey (sw_keyPrefix sw) key) 0 (sw_windowStart sw now) db)
     = (case sw_retained sw now key db of [] \<Rightarrow> None | z # zs \<Rightarrow> Some (fold min zs z))"
  by (auto simp: redis_ZRANGE_first_def redis_ZREMRANGEBYSCORE_def redis_GET_def Let_def
        sw_retained_def sw_entries_def split: option.splits list.splits)

text \<open>
  What \<open>Allow\<close> returns in general, for a window of \<open>s\<close> whole seconds. With \<open>k\<close>
  the number of entries retained after dropping the scores up to the start of the
  window: when \<open>k\<close> is below the limit the call is allowed with \<open>limit - k - 1\<close>
  remaining and a reset of the window size.
\<close>

lemma SlidingWindow_Allow_allowed:
  assumes "sw_windowSize sw = s * Second" and "0 \<le> s" and "s * Second < 2 ^ 63"
    and "int (length (sw_retained sw now key db)) < sw_limit sw"
  shows "fst (SlidingWindow_Allow sw now key (Connected db))
           = Inr (True,
                  Some \<lparr>Allowed = True,
                        Remaining = sw_limit sw - int (length (sw_retained sw now key db)) - 1,
                        Limit = sw_limit sw,
                        ResetIn = sw_windowSize sw\<rparr>,
                  None)"
proof -
  have s53: "s < 2 ^ 53"
    using assms(2,3) by (simp add: Second_def)
  have sec: "int_of_float64 (Duration_Seconds (s * Second)) = s"
    using assms(2) s53 by (rule Duration_Seconds_whole)
  have r: "go_int64 (go_int64 s * Second) = s * Second"
    using whole_seconds [of "s * Second"] assms(2,3)
    by (simp add: go_quot_def Second_def zero_le_mult_iff)
  have "fst (sw_script (redisKey (sw_keyPrefix sw) key) (sw_limit sw)
               (sw_windowStart sw now) (Unix now) s db)
          = [1, sw_limit sw - int (length (sw_retained sw now key db)) - 1, s]"
    using assms(4) sw_script_allowed [of "redisKey (sw_keyPrefix sw) key" "sw_windowStart sw now"
                                         db "sw_limit sw"]
    by (simp add: sw_retained_card)
  then show ?thesis
    by (simp add: SlidingWindow_Allow_Connected sec parse_reply_def r assms(1))
qed

text \<open>
  When \<open>k\<close> has reached the limit the call is denied with nothing remaining, and the
  reset is the start of the window plus its length minus the oldest retained
  timestamp \<open>t\<^sub>0\<close>, in seconds: \<open>(now - W) + W - t\<^sub>0\<close>, which is how long ago the oldest
  entry was added, not how long it will stay.
\<close>

lemma SlidingWindow_Allow_denied:
  assumes "sw_windowSize sw = s * Second" and "0 \<le> s" and "s * Second < 2 ^ 63"
    and "sw_limit sw \<le> int (length (sw_retained sw now key db))"
    and "sw_retained sw now key db = z # zs"
  shows "fst (SlidingWindow_Allow sw now key (Connected db))
           = Inr (False,
                  Some \<lparr>Allowed = False, Remaining = 0, Limit = sw_limit sw,
                        ResetIn = go_int64 (go_int64 (sw_windowStart sw now + s - fold min zs z)
                                              * Second)\<rparr>,
                  None)"
proof -
  have s53: "s < 2 ^ 53"
    using assms(2,3) by (simp add: Second_def)
  have sec: "int_of_float64 (Duration_Seconds (s * Second)) = s"
    using assms(2) s53 by (rule Duration_Seconds_whole)
  have "fst (sw_script (redisKey (sw_keyPrefix sw) key) (sw_limit sw)
               (sw_windowStart sw now) (Unix now) s db)
          = [0, 0, sw_windowStart sw now + s - fold min zs z]"
    using assms(4) sw_script_denied [of "redisKey (sw_keyPrefix sw) key" "sw_windowStart sw now"
                                        db "sw_limit sw"]
    by (simp add: sw_retained_card ZRANGE_first_after_ZREMRANGEBYSCORE assms(5))
  then show ?thesis
    by (simp add: SlidingWindow_Allow_Connected sec parse_reply_def assms(1))
qed

text \<open>
  C6: a sliding window of limit 1 and 60 seconds whose key holds the timestamp 100 is
  called at second 110. One entry is retained, so the call is denied with nothing
  remaining; the reset it reports is 10 seconds, the age of the entry. The stated
  formula \<open>t\<^sub>0 + W - (now - W)\<close> gives \<open>100 + 60 - (110 - 60) = 110\<close> seconds, and the entry
  leaves the window at second 160, which is 50 seconds away: a call at second 120, after
  the reported reset, and a call at second 159 are still denied, and the call at second
  160 is allowed.
\<close>

theorem sliding_window_reset_is_age_of_oldest:
  "sw_retained sw_1_60 (110 * Second) ''k'' [''ratelimit::k'' \<mapsto> ([100], Some 60)] = [100] \<and>
   fst (SlidingWindow_Allow sw_1_60 (110 * Second) ''k''
          (Connected [''ratelimit::k'' \<mapsto> ([100], Some 60)]))
     = Inr (False, Some \<lparr>Allowed = False, Remaining = 0, Limit = 1, ResetIn = 10 * Second\<rparr>,
            None) \<and>
   10 * Second \<noteq> (100 + 60 - (110 - 60)) * Second \<and>
   fst (SlidingWindow_Allow sw_1_60 (120 * Second) ''k''
          (Connected [''ratelimit::k'' \<mapsto> ([100], Some 60)]))
     = Inr (False, Some \<lparr>Allowed = False, Remaining = 0, Limit = 1, ResetIn = 20 * Second\<rparr>,
            None) \<and>
   fst (SlidingWindow_Allow sw_1_60 (159 * Second) ''k''
          (Connected [''ratelimit::k'' \<mapsto> ([100], Some 60)]))
     = Inr (False, Some \<lparr>Allowed = False, Remaining = 0, Limit = 1, ResetIn = 59 * Second\<rparr>,
            None) \<and>
   fst (SlidingWindow_Allow sw_1_60 (160 * Second) ''k''
          (Connected [''ratelimit::k'' \<mapsto> ([100], Some 60)]))
     = Inr (True, Some \<lparr>Allowed = True, Remaining = 0, Limit = 1, ResetIn = 60 * Second\<rparr>,
            None)"
  unfolding SlidingWindow_Allow_sw_1_60 sw_retained_def sw_windowStart_def by code_simp

section \<open>Token bucket: a burst and the refill\<close>

lemma lua_ceil_div_bounds:
  assumes "0 \<le> a" and "1 \<le> b"
  shows "0 \<le> lua_ceil_div a b \<and> lua_ceil_div a b \<le> a"
proof (cases "a = 0")
  case True
  then show ?thesis by (simp add: lua_ceil_div_def)
next
  case False
  then have n: "- a < 0"
    using assms(1) by simp
  have "(- a) div b < 0"
    using n assms(2) by (simp add: pos_imp_zdiv_neg_iff)
  moreover have "(- a) div 1 \<le> (- a) div b"
    using n assms(2) by (intro zdiv_mono2_neg) auto
  ultimately show ?thesis by (simp add: lua_ceil_div_def)
qed

lemma lua_ceil_div_one: "1 \<le> b \<Longrightarrow> lua_ceil_div 1 b = 1"
  by (simp add: lua_ceil_div_def div_eq_minus1)

lemma tb_window_positive:
  assumes "1 \<le> tb_refillRate tb" and "tb_refillRate tb \<le> tb_bucketSize tb * Second"
    and "tb_bucketSize tb * Second < 2 ^ 63"
  shows "0 < tb_window tb"
proof -
  let ?b = "tb_bucketSize tb * Second" and ?r = "tb_refillRate tb"
  have p: "0 \<le> ?b" using assms by simp
  have a: "go_int64 ?b = ?b"
    using p assms(3) by (intro go_int64_id) auto
  have q: "go_quot ?b ?r = ?b div ?r"
    using p assms(1) by (simp add: go_quot_def)
  have lo: "0 < ?b div ?r"
    using assms(1,2) by (simp add: pos_imp_zdiv_pos_iff)
  have hi: "?b div ?r \<le> ?b"
    using zdiv_mono2 [of ?b 1 ?r] p assms(1) by simp
  have "go_int64 (?b div ?r) = ?b div ?r"
    using lo hi assms(3) by (intro go_int64_id) auto
  then show ?thesis using lo by (simp add: tb_window_def a q)
qed

lemma reset_seconds:
  assumes "0 \<le> s" and "s \<le> b" and "b * Second < 2 ^ 63"
  shows "go_int64 (go_int64 s * Second) = s * Second"
proof -
  have le: "s * Second \<le> b * Second"
    using assms(2) by (simp add: Second_def)
  have "s \<le> s * Second"
    using assms(1) by (simp add: Second_def)
  then have "go_int64 s = s"
    using assms le by (intro go_int64_id) auto
  moreover have "go_int64 (s * Second) = s * Second"
    using assms le by (intro go_int64_id) (auto simp: Second_def)
  ultimately show ?thesis by simp
qed

text \<open>
  A call at the second of the last refill, with a positive time to live and \<open>k\<close> tokens
  in the bucket: allowed when \<open>k \<ge> 1\<close>, leaving \<open>k - 1\<close>; denied when \<open>k = 0\<close>.
\<close>

lemma TokenBucket_Allow_take:
  assumes "1 \<le> tb_refillRate tb" and "0 < tb_window tb"
    and "tb_bucketSize tb * Second < 2 ^ 63"
    and "tb_holds tb key t k db" and "1 \<le> k" and "k \<le> tb_bucketSize tb"
  shows "\<exists>db'. TokenBucket_Allow tb t key (Connected db) = (tb_allowed tb (k - 1), Connected db') \<and>
           tb_holds tb key t (k - 1) db'"
proof -
  let ?s = "lua_ceil_div (tb_bucketSize tb - (k - 1)) (tb_refillRate tb)"
  have "0 \<le> ?s \<and> ?s \<le> tb_bucketSize tb - (k - 1)"
    using assms(1,6) by (intro lua_ceil_div_bounds) auto
  then have "go_int64 (go_int64 ?s * Second) = ?s * Second"
    using assms(3,5) by (intro reset_seconds [where b = "tb_bucketSize tb"]) auto
  then show ?thesis
    using assms
    by (auto simp: TokenBucket_Allow_def tb_script_def tb_holds_def Let_def parse_reply_def
          redis_GET_def redis_SET_def redis_EXPIRE_def redis_TTL_def tb_allowed_def
          split: option.splits)
qed

lemma TokenBucket_Allow_empty:
  assumes "1 \<le> tb_refillRate tb" and "0 < tb_window tb"
    and "1 \<le> tb_bucketSize tb" and "tb_bucketSize tb * Second < 2 ^ 63"
    and "tb_holds tb key t 0 db"
  shows "\<exists>db'. TokenBucket_Allow tb t key (Connected db)
           = (Inr (False,
                   Some \<lparr>Allowed = False, Remaining = 0, Limit = tb_bucketSize tb,
                         ResetIn = Second\<rparr>,
                   None),
              Connected db') \<and>
           tb_holds tb key t 0 db'"
proof -
  have "go_int64 (go_int64 1 * Second) = 1 * Second"
    using assms(3,4) by (intro reset_seconds [where b = "tb_bucketSize tb"]) auto
  then show ?thesis
    using assms
    by (auto simp: TokenBucket_Allow_def tb_script_def tb_holds_def Let_def parse_reply_def
          redis_GET_def redis_SET_def redis_EXPIRE_def redis_TTL_def lua_ceil_div_one
          split: option.splits)
qed

text \<open>
  One second after the bucket ran empty a call is allowed, whether the key is still
  there or has expired.
\<close>

lemma TokenBucket_Allow_refilled:
  assumes "1 \<le> tb_refillRate tb" and "1 \<le> tb_bucketSize tb"
    and "tb_holds tb key t 0 db \<or> redis_GET (redisKey (tb_keyPrefix tb) key) db = None"
  shows "\<exists>li. fst (TokenBucket_Allow tb (t + 1) key (Connected db)) = Inr (True, Some li, None)
           \<and> Allowed li"
  using assms
  by (auto simp: TokenBucket_Allow_def tb_script_def tb_holds_def Let_def parse_reply_def
        split: option.splits)

lemma calls_TokenBucket_burst:
  assumes "1 \<le> tb_refillRate tb" and "0 < tb_window tb"
    and "tb_bucketSize tb * Second < 2 ^ 63"
    and "tb_holds tb key t k db" and "int n \<le> k" and "k \<le> tb_bucketSize tb"
  shows "\<exists>db'. calls (TokenBucket_Allow tb t) key n (Connected db)
           = (map (\<lambda>j. tb_allowed tb (k - 1 - int j)) [0..<n], Connected db') \<and>
           tb_holds tb key t (k - int n) db'"
  using assms(4,5,6)
proof (induction n arbitrary: k db)
  case 0
  then show ?case by simp
next
  case (Suc n)
  have k1: "1 \<le> k"
    using Suc.prems(2) by simp
  from TokenBucket_Allow_take [OF assms(1,2,3) Suc.prems(1) k1 Suc.prems(3)] obtain db1 where
    first: "TokenBucket_Allow tb t key (Connected db) = (tb_allowed tb (k - 1), Connected db1)"
    and h1: "tb_holds tb key t (k - 1) db1"
    by blast
  have "int n \<le> k - 1" and "k - 1 \<le> tb_bucketSize tb"
    using Suc.prems by simp_all
  from Suc.IH [OF h1 this] obtain db' where
    rest: "calls (TokenBucket_Allow tb t) key n (Connected db1)
             = (map (\<lambda>j. tb_allowed tb (k - 1 - 1 - int j)) [0..<n], Connected db')"
    and h': "tb_holds tb key t (k - 1 - int n) db'"
    by blast
  have shift: "\<And>j. k - 1 - int (Suc j) = k - 1 - 1 - int j"
    by simp
  have m: "map (\<lambda>j. tb_allowed tb (k - 1 - int j)) [0..<Suc n]
             = tb_allowed tb (k - 1) # map (\<lambda>j. tb_allowed tb (k - 1 - 1 - int j)) [0..<n]"
    by (simp only: map_upt_Suc shift) simp
  have "tb_holds tb key t (k - int (Suc n)) db'"
    using h' by (simp add: algebra_simps)
  moreover have "calls (TokenBucket_Allow tb t) key (Suc n) (Connected db)
                   = (map (\<lambda>j. tb_allowed tb (k - 1 - int j)) [0..<Suc n], Connected db')"
    unfolding m by (simp add: first rest)
  ultimately show ?case by blast
qed

text \<open>
  For a bucket size \<open>B \<ge> 1\<close> and a refill rate \<open>R \<ge> 1\<close> for which the time to live
  is positive and within range (\<open>R \<le> B \<cdot> 10\<^sup>9 < 2\<^sup>6\<^sup>3\<close>), and an unused key: \<open>B\<close> calls
  at second \<open>t\<close> are allowed, call \<open>i\<close> leaving \<open>B - i\<close> tokens with a reset of
  \<open>ceil((B - (B - i)) / R)\<close> seconds; the next call at \<open>t\<close> is denied; and a further call at
  \<open>t + ceil(1 / R)\<close> is allowed, whether or not the key has expired by then.
\<close>

lemma token_bucket_burst_then_refill:
  assumes "1 \<le> tb_bucketSize tb" and "1 \<le> tb_refillRate tb"
    and "tb_refillRate tb \<le> tb_bucketSize tb * Second"
    and "tb_bucketSize tb * Second < 2 ^ 63"
    and "redis_GET (redisKey (tb_keyPrefix tb) key) db = None"
  shows "\<exists>db1 db2.
           calls (TokenBucket_Allow tb t) key (nat (tb_bucketSize tb)) (Connected db)
             = (map (\<lambda>j. tb_allowed tb (tb_bucketSize tb - (int j + 1)))
                    [0..<nat (tb_bucketSize tb)],
                Connected db1) \<and>
           TokenBucket_Allow tb t key (Connected db1)
             = (Inr (False,
                     Some \<lparr>Allowed = False, Remaining = 0, Limit = tb_bucketSize tb,
                           ResetIn = Second\<rparr>,
                     None),
                Connected db2) \<and>
           (\<exists>li. fst (TokenBucket_Allow tb (t + lua_ceil_div 1 (tb_refillRate tb)) key
                         (Connected db2)) = Inr (True, Some li, None) \<and> Allowed li) \<and>
           (\<exists>li. fst (TokenBucket_Allow tb (t + lua_ceil_div 1 (tb_refillRate tb)) key
                         (Connected (db2(redisKey (tb_keyPrefix tb) key := None))))
                    = Inr (True, Some li, None) \<and> Allowed li)"
proof -
  let ?B = "tb_bucketSize tb"
  have w: "0 < tb_window tb"
    using assms(2,3,4) by (rule tb_window_positive)
  have h0: "tb_holds tb key t ?B db"
    using assms(5) by (simp add: tb_holds_def)
  have n: "int (nat ?B) \<le> ?B"
    using assms(1) by simp
  from calls_TokenBucket_burst [OF assms(2) w assms(4) h0 n] obtain db1 where
    burst: "calls (TokenBucket_Allow tb t) key (nat ?B) (Connected db)
              = (map (\<lambda>j. tb_allowed tb (?B - 1 - int j)) [0..<nat ?B], Connected db1)"
    and h1: "tb_holds tb key t (?B - int (nat ?B)) db1"
    by blast
  have e: "tb_holds tb key t 0 db1"
    using h1 assms(1) by simp
  from TokenBucket_Allow_empty [OF assms(2) w assms(1) assms(4) e] obtain db2 where
    denied: "TokenBucket_Allow tb t key (Connected db1)
             = (Inr (False,
                     Some \<lparr>Allowed = False, Remaining = 0, Limit = ?B, ResetIn = Second\<rparr>,
                     None),
                Connected db2)"
    and h2: "tb_holds tb key t 0 db2"
    by blast
  have one: "lua_ceil_div 1 (tb_refillRate tb) = 1"
    using assms(2) by (rule lua_ceil_div_one)
  have r1: "\<exists>li. fst (TokenBucket_Allow tb (t + 1) key (Connected db2)) = Inr (True, Some li, None)
              \<and> Allowed li"
    using h2 by (intro TokenBucket_Allow_refilled [OF assms(2) assms(1)]) simp
  have "redis_GET (redisKey (tb_keyPrefix tb) key) (db2(redisKey (tb_keyPrefix tb) key := None))
          = None"
    by (simp add: redis_GET_def)
  then have r2: "\<exists>li. fst (TokenBucket_Allow tb (t + 1) key
                             (Connected (db2(redisKey (tb_keyPrefix tb) key := None))))
                        = Inr (True, Some li, None) \<and> Allowed li"
    by (intro TokenBucket_Allow_refilled [OF assms(2) assms(1)]) simp
  have eq: "\<And>j. ?B - 1 - int j = ?B - (int j + 1)"
    by simp
  show ?thesis
    using burst denied r1 r2 unfolding one eq by blast
qed

text \<open>
  At bucket size 2 and refill rate 1: two calls within a second are allowed, the third
  is denied, and the headers of the denial carry no remaining request and a retry after
  one second.
\<close>

lemma token_bucket_2_1_burst:
  "fst (calls (TokenBucket_Allow tb_2_1 100) ''k'' 3 (Connected Map.empty))
     = [tb_allowed tb_2_1 1, tb_allowed tb_2_1 0,
        Inr (False, Some \<lparr>Allowed = False, Remaining = 0, Limit = 2, ResetIn = Second\<rparr>, None)]"
  by code_simp

lemma token_bucket_2_1_denial_headers:
  "GetHeaders (100 * Second) \<lparr>Allowed = False, Remaining = 0, Limit = 2, ResetIn = Second\<rparr>
     = [(''X-RateLimit-Limit'', ''2''), (''X-RateLimit-Remaining'', ''0''),
        (''X-RateLimit-Reset'', ''101''), (''Retry-After'', ''1'')]"
proof -
  have "int_of_float64 (Duration_Seconds (1 * Second)) = 1"
    by (rule Duration_Seconds_whole) simp_all
  then have s: "int_of_float64 (Duration_Seconds Second) = 1"
    by simp
  show ?thesis
    unfolding GetHeaders_def LimitInfo.simps s by code_simp
qed

section \<open>What a denial reports\<close>

lemma elapsed_times_rate:
  fixes e r :: int
  assumes "0 < e" and "1 \<le> r"
  shows "1 \<le> e * r"
proof -
  have "1 * 1 \<le> e * r"
    using assms by (intro mult_mono) auto
  then show ?thesis by simp
qed

lemma one_second: "go_int64 (go_int64 1 * Second) = Second"
  by (simp add: go_int64_id Second_def)

lemma TokenBucket_Allow_Connected:
  "tb_refillRate tb \<noteq> 0 \<Longrightarrow>
   fst (TokenBucket_Allow tb now key (Connected db))
     = Inr (parse_reply (tb_bucketSize tb)
              (fst (tb_script (redisKey (tb_keyPrefix tb) key) (tb_bucketSize tb)
                      (tb_refillRate tb) now (tb_window tb) db)))"
  by (simp add: TokenBucket_Allow_def Let_def split: prod.splits)

lemma LeakyBucket_Allow_Connected:
  "fst (LeakyBucket_Allow lb now key (Connected db))
     = Inr (parse_reply (lb_capacity lb)
              (fst (lb_script (redisKey (lb_keyPrefix lb) key) (lb_capacity lb)
                      (lb_leakRate lb) now (lb_window lb) db)))"
  by (simp add: LeakyBucket_Allow_def Let_def split: prod.splits)

text \<open>
  From a stored number of tokens that is not negative, a denial of the token bucket
  reports no remaining token and a reset of one second.
\<close>

lemma TokenBucket_Allow_denied:
  assumes "1 \<le> tb_refillRate tb" and "1 \<le> tb_bucketSize tb"
    and "\<forall>h. redis_GET (redisKey (tb_keyPrefix tb) key) db = Some h \<longrightarrow> 0 \<le> tokens h"
    and "fst (TokenBucket_Allow tb now key (Connected db)) = Inr (False, Some li, None)"
  shows "Remaining li = 0 \<and> ResetIn li = Second"
proof -
  let ?rk = "redisKey (tb_keyPrefix tb) key"
  let ?tokens0 = "case redis_GET ?rk db of None \<Rightarrow> tb_bucketSize tb | Some h \<Rightarrow> tokens h"
  let ?last0 = "case redis_GET ?rk db of None \<Rightarrow> now | Some h \<Rightarrow> last_refill h"
  let ?tokens1 = "if now - ?last0 > 0
                  then min (tb_bucketSize tb) (?tokens0 + (now - ?last0) * tb_refillRate tb)
                  else ?tokens0"
  have nz: "tb_refillRate tb \<noteq> 0"
    using assms(1) by simp
  have t0: "0 \<le> ?tokens0"
    using assms(2,3) by (auto split: option.splits)
  have refill: "1 \<le> ?tokens1" if "now - ?last0 > 0"
    using that t0 assms(2) elapsed_times_rate [OF that assms(1)] by simp
  have "\<not> 1 \<le> ?tokens1"
    using assms(4) unfolding TokenBucket_Allow_Connected [OF nz]
    by (auto simp: tb_script_def Let_def parse_reply_def split: if_splits)
  then have z: "?tokens1 = 0"
    using refill t0 by (auto split: if_splits)
  then have "fst (tb_script ?rk (tb_bucketSize tb) (tb_refillRate tb) now (tb_window tb) db)
               = [0, 0, 1]"
    using assms(1) by (simp add: tb_script_def Let_def lua_ceil_div_one)
  then have "fst (TokenBucket_Allow tb now key (Connected db))
               = Inr (False,
                      Some \<lparr>Allowed = False, Remaining = 0, Limit = tb_bucketSize tb,
                            ResetIn = Second\<rparr>,
                      None)"
    by (simp add: TokenBucket_Allow_Connected [OF nz] parse_reply_def one_second)
  then show ?thesis
    using assms(4) by auto
qed

text \<open>
  From a stored level that is not above the capacity, a denial of the leaky bucket
  reports no remaining room and a reset of one second.
\<close>

lemma LeakyBucket_Allow_denied:
  assumes "1 \<le> lb_leakRate lb" and "1 \<le> lb_capacity lb"
    and "\<forall>h. redis_GET (redisKey (lb_keyPrefix lb) key) db = Some h \<longrightarrow> level h \<le> lb_capacity lb"
    and "fst (LeakyBucket_Allow lb now key (Connected db)) = Inr (False, Some li, None)"
  shows "Remaining li = 0 \<and> ResetIn li = Second"
proof -
  let ?rk = "redisKey (lb_keyPrefix lb) key"
  let ?level0 = "case redis_GET ?rk db of None \<Rightarrow> 0 | Some h \<Rightarrow> level h"
  let ?last0 = "case redis_GET ?rk db of None \<Rightarrow> now | Some h \<Rightarrow> last_leak h"
  let ?level1 = "if now - ?last0 > 0
                 then max 0 (?level0 - (now - ?last0) * lb_leakRate lb)
                 else ?level0"
  have l0: "?level0 \<le> lb_capacity lb"
    using assms(2,3) by (auto split: option.splits)
  have leak: "?level1 < lb_capacity lb" if "now - ?last0 > 0"
    using that l0 assms(2) elapsed_times_rate [OF that assms(1)] by simp
  have "\<not> ?level1 < lb_capacity lb"
    using assms(4) unfolding LeakyBucket_Allow_Connected
    by (auto simp: lb_script_def Let_def parse_reply_def split: if_splits)
  then have z: "?level1 = lb_capacity lb"
    using leak l0 by (auto split: if_splits)
  then have "fst (lb_script ?rk (lb_capacity lb) (lb_leakRate lb) now (lb_window lb) db)
               = [0, 0, 1]"
    using assms(1) by (simp add: lb_script_def Let_def lua_ceil_div_one)
  then have "fst (LeakyBucket_Allow lb now key (Connected db))
               = Inr (False,
                      Some \<lparr>Allowed = False, Remaining = 0, Limit = lb_capacity lb,
                            ResetIn = Second\<rparr>,
                      None)"
    by (simp add: LeakyBucket_Allow_Connected parse_reply_def one_second)
  then show ?thesis
    using assms(4) by auto
qed

text \<open>Both invariants hold of every state the scripts write.\<close>

lemma tb_script_stores_nonnegative:
  assumes "1 \<le> bucket_size" and "1 \<le> refill_rate"
    and "\<forall>h. redis_GET key db = Some h \<longrightarrow> 0 \<le> tokens h"
  shows "\<forall>h. redis_GET key (snd (tb_script key bucket_size refill_rate now window db)) = Some h
           \<longrightarrow> 0 \<le> tokens h"
proof -
  let ?tokens0 = "case redis_GET key db of None \<Rightarrow> bucket_size | Some h \<Rightarrow> tokens h"
  let ?last0 = "case redis_GET key db of None \<Rightarrow> now | Some h \<Rightarrow> last_refill h"
  let ?tokens1 = "if now - ?last0 > 0
                  then min bucket_size (?tokens0 + (now - ?last0) * refill_rate)
                  else ?tokens0"
  have t0: "0 \<le> ?tokens0"
    using assms(1,3) by (auto split: option.splits)
  have "0 \<le> ?tokens1"
  proof (cases "now - ?last0 > 0")
    case True
    then show ?thesis
      using t0 assms(1) elapsed_times_rate [OF True assms(2)] by simp
  next
    case False
    then show ?thesis using t0 by simp
  qed
  then show ?thesis
    by (auto simp: tb_script_def Let_def redis_GET_def redis_SET_def redis_EXPIRE_def
          split: if_splits)
qed

lemma lb_script_stores_bounded:
  assumes "1 \<le> capacity" and "1 \<le> leak_rate"
    and "\<forall>h. redis_GET key db = Some h \<longrightarrow> level h \<le> capacity"
  shows "\<forall>h. redis_GET key (snd (lb_script key capacity leak_rate now window db)) = Some h
           \<longrightarrow> level h \<le> capacity"
proof -
  let ?level0 = "case redis_GET key db of None \<Rightarrow> 0 | Some h \<Rightarrow> level h"
  let ?last0 = "case redis_GET key db of None \<Rightarrow> now | Some h \<Rightarrow> last_leak h"
  let ?level1 = "if now - ?last0 > 0
                 then max 0 (?level0 - (now - ?last0) * leak_rate)
                 else ?level0"
  have l0: "?level0 \<le> capacity"
    using assms(1,3) by (auto split: option.splits)
  have "?level1 \<le> capacity"
  proof (cases "now - ?last0 > 0")
    case True
    then show ?thesis
      using l0 assms(1) elapsed_times_rate [OF True assms(2)] by simp
  next
    case False
    then show ?thesis using l0 by simp
  qed
  then show ?thesis
    by (auto simp: lb_script_def Let_def redis_GET_def redis_SET_def redis_EXPIRE_def
          split: if_splits)
qed

section \<open>Weighted round-robin\<close>

subsection \<open>The balancer that the router builds\<close>

text \<open>
  \<open>NewRouter\<close> makes the slice of weights with one zero per URL and then appends the
  group's weight once per URL. Whatever the configuration, the weights are therefore
  \<open>n\<close> zeros followed by \<open>n\<close> copies of the group's weight, and never 5, 1, 1.
\<close>

lemma fold_append_weight:
  "fold (\<lambda>_ ws. ws @ [w]) xs acc = acc @ replicate (length xs) w"
  by (induction xs arbitrary: acc) (simp_all add: replicate_app_Cons_same)

lemma NewRouter_Weights_eq:
  "NewRouter_Weights c
     = replicate (length (cfg_URLs c)) 0
       @ replicate (length (cfg_URLs c)) (if cfg_Weight c = 0 then 1 else cfg_Weight c)"
  by (simp only: NewRouter_Weights_def fold_append_weight)

lemma NewRouter_Weights_not_5_1_1: "NewRouter_Weights c \<noteq> [5, 1, 1]"
proof
  assume "NewRouter_Weights c = [5, 1, 1]"
  then have "length (NewRouter_Weights c) = 3"
    by simp
  then have "2 * length (cfg_URLs c) = 3"
    by (simp add: NewRouter_Weights_eq)
  then show False
    by presburger
qed

lemma findMax_zeros:
  "\<forall>i \<in> set idx. i < n \<Longrightarrow> findMax (replicate n 0) idx (0, j) = (0, j)"
  by (induction idx) simp_all

lemma map2_add_zeros: "length xs = n \<Longrightarrow> map2 (+) xs (replicate n (0::int) @ ys) = xs"
  by (induction xs arbitrary: n) auto

text \<open>
  So the balancer starts from current weights that are all zero, and for every
  configuration with at least one URL its first selection takes the first URL and
  moves the sum of the current weights from 0 to minus the sum of the weights.
\<close>

lemma Next_from_zeros:
  assumes "urls \<noteq> []"
  shows "Next \<lparr>wrr_urls = urls,
               wrr_weights = replicate (length urls) 0 @ replicate (length urls) w,
               wrr_current = replicate (length urls) 0\<rparr>
           = Inr (hd urls,
                  \<lparr>wrr_urls = urls,
                   wrr_weights = replicate (length urls) 0 @ replicate (length urls) w,
                   wrr_current = (replicate (length urls) 0)[0 := - (int (length urls) * w)]\<rparr>)"
proof -
  have n: "0 < length urls"
    using assms by simp
  have upt: "[0..<length urls] = 0 # [1..<length urls]"
    using n by (simp add: upt_conv_Cons)
  have fm: "findMax (replicate (length urls) 0) [0..<length urls] (- 1, 0) = (0, 0)"
    using n by (simp only: upt findMax.simps) (simp add: findMax_zeros)
  have hd: "urls ! 0 = hd urls"
    using assms(1) by (simp add: hd_conv_nth)
  show ?thesis
    using n by (simp add: Next_def fm Let_def sum_list_replicate map2_add_zeros hd)
qed

lemma router_balancer_first_pick:
  assumes "cfg_URLs c \<noteq> []"
  shows "sum_list (wrr_current (NewWeightedRoundRobin (cfg_URLs c) (NewRouter_Weights c))) = 0 \<and>
         (\<exists>wrr'. Next (NewWeightedRoundRobin (cfg_URLs c) (NewRouter_Weights c))
                    = Inr (hd (cfg_URLs c), wrr') \<and>
                  sum_list (wrr_current wrr')
                    = - (int (length (cfg_URLs c))
                         * (if cfg_Weight c = 0 then 1 else cfg_Weight c)))"
proof -
  define w where "w = (if cfg_Weight c = 0 then 1 else cfg_Weight c)"
  have b: "NewWeightedRoundRobin (cfg_URLs c) (NewRouter_Weights c)
             = \<lparr>wrr_urls = cfg_URLs c,
                wrr_weights = replicate (length (cfg_URLs c)) 0 @ replicate (length (cfg_URLs c)) w,
                wrr_current = replicate (length (cfg_URLs c)) 0\<rparr>"
    by (simp add: NewWeightedRoundRobin_def go_copy_def NewRouter_Weights_eq w_def)
  have "sum_list ((replicate n (0::int))[0 := v]) = v" if "0 < n" for n v
    using that by (cases n) (simp_all add: sum_list_replicate)
  then have "sum_list ((replicate (length (cfg_URLs c)) (0::int))
                         [0 := - (int (length (cfg_URLs c)) * w)])
               = - (int (length (cfg_URLs c)) * w)"
    using assms by simp
  then show ?thesis
    unfolding b Next_from_zeros [OF assms, of w]
    by (simp add: w_def [symmetric] sum_list_replicate)
qed

text \<open>
  C3: the router's balancer for the group of URLs u1, u2, u3 with the configured
  weight 5 has the weights \<open>[0, 0, 0, 5, 5, 5]\<close> and the current weights \<open>[0, 0, 0]\<close>.
  The first selection moves the current weights to \<open>[-15, 0, 0]\<close>, so their sum changes
  from 0 to -15. After four selections they are \<open>[-30, -15, -15]\<close> and the fifth
  selection takes u1 again, whose current weight is the smallest. The ten first
  selections are u1, u2, u3 and then u1 seven times: seven selections in a row without
  u2 or u3.
\<close>

theorem router_weighted_not_smooth:
  "weightedBalancers (NewRouter ''weighted'' [(''svcA'', group_cfg)]) ''svcA'' = Some router_wrr \<and>
   wrr_weights router_wrr = [0, 0, 0, 5, 5, 5] \<and>
   wrr_current router_wrr = [0, 0, 0] \<and>
   sum_list (wrr_current router_wrr) = 0 \<and>
   map_sum id (wrr_current \<circ> snd) (Next router_wrr) = Inr [- 15, 0, 0] \<and>
   map_sum id (sum_list \<circ> wrr_current \<circ> snd) (Next router_wrr) = Inr (- 15) \<and>
   map_sum id (wrr_current \<circ> snd) (picks 4 router_wrr) = Inr [- 30, - 15, - 15] \<and>
   map_sum id fst (picks 10 router_wrr)
     = Inr [''u1'', ''u2'', ''u3'', ''u1'', ''u1'', ''u1'', ''u1'', ''u1'', ''u1'', ''u1'']"
  by code_simp

subsection \<open>The balancer with one weight per URL\<close>

text \<open>
  The balancer itself, when it is given one weight per URL, is the smooth weighted
  round-robin. From the weights 5, 1, 1 its current weights run through a cycle of
  seven states.
\<close>

lemma Next_swrr:
  "Next (swrr u1 u2 u3 [a, b, c]) =
     (let i = snd (findMax [a, b, c] [0, 1, 2] (- 1, 0)) in
      Inr ([u1, u2, u3] ! i,
           swrr u1 u2 u3 (map2 (+) ([a, b, c][i := [a, b, c] ! i - 7]) [5, 1, 1])))"
  by (simp add: Next_def swrr_def Let_def upt_rec split: prod.splits)

lemma cycle_cases:
  assumes "cur \<in> set cycle"
  obtains "cur = [5, 1, 1]" | "cur = [3, 2, 2]" | "cur = [1, 3, 3]" | "cur = [6, - 3, 4]"
    | "cur = [4, - 2, 5]" | "cur = [9, - 1, - 1]" | "cur = [7, 0, 0]"
  using assms by (auto simp: cycle_def)

lemma cycle_sum: "cur \<in> set cycle \<Longrightarrow> sum_list cur = 7"
  by (erule cycle_cases) simp_all

lemma all_less_3: "(\<forall>j<(3::nat). P j) = (P 0 \<and> P (Suc 0) \<and> P (Suc (Suc 0)))"
  by (auto simp: less_Suc_eq numeral_3_eq_3)

lemma Next_cycle:
  assumes "cur \<in> set cycle"
  shows "\<exists>i cur'. i < 3 \<and> Next (swrr u1 u2 u3 cur) = Inr ([u1, u2, u3] ! i, swrr u1 u2 u3 cur')
           \<and> cur' \<in> set cycle \<and> (\<forall>j<3. cur ! j \<le> cur ! i)"
  using assms
proof (cases rule: cycle_cases)
  case 1
  then show ?thesis
    by (intro exI [where x = 0] exI [where x = "[3, 2, 2]"]) (simp add: Next_swrr cycle_def all_less_3)
next
  case 2
  then show ?thesis
    by (intro exI [where x = 0] exI [where x = "[1, 3, 3]"]) (simp add: Next_swrr cycle_def all_less_3)
next
  case 3
  then show ?thesis
    by (intro exI [where x = 1] exI [where x = "[6, - 3, 4]"]) (simp add: Next_swrr cycle_def all_less_3)
next
  case 4
  then show ?thesis
    by (intro exI [where x = 0] exI [where x = "[4, - 2, 5]"]) (simp add: Next_swrr cycle_def all_less_3)
next
  case 5
  then show ?thesis
    by (intro exI [where x = 2] exI [where x = "[9, - 1, - 1]"]) (simp add: Next_swrr cycle_def all_less_3)
next
  case 6
  then show ?thesis
    by (intro exI [where x = 0] exI [where x = "[7, 0, 0]"]) (simp add: Next_swrr cycle_def all_less_3)
next
  case 7
  then show ?thesis
    by (intro exI [where x = 0] exI [where x = "[5, 1, 1]"]) (simp add: Next_swrr cycle_def all_less_3)
qed

lemma picks_cycle:
  "cur \<in> set cycle \<Longrightarrow>
     \<exists>urls cur'. picks n (swrr u1 u2 u3 cur) = Inr (urls, swrr u1 u2 u3 cur') \<and> cur' \<in> set cycle"
proof (induction n arbitrary: cur)
  case 0
  then show ?case by auto
next
  case (Suc n)
  from Next_cycle [OF Suc.prems, of u1 u2 u3] obtain i cur1 where
    n: "Next (swrr u1 u2 u3 cur) = Inr ([u1, u2, u3] ! i, swrr u1 u2 u3 cur1)"
    and c: "cur1 \<in> set cycle"
    by blast
  from Suc.IH [OF c] obtain urls cur' where
    "picks n (swrr u1 u2 u3 cur1) = Inr (urls, swrr u1 u2 u3 cur')" and "cur' \<in> set cycle"
    by blast
  then show ?case using n by auto
qed

lemma picks_7_cycle:
  assumes "cur \<in> set cycle" and "distinct [u1, u2, u3]"
  shows "\<exists>urls. picks 7 (swrr u1 u2 u3 cur) = Inr (urls, swrr u1 u2 u3 cur) \<and>
           count_list urls u1 = 5 \<and> count_list urls u2 = 1 \<and> count_list urls u3 = 1"
proof -
  have s7: "7 = Suc (Suc (Suc (Suc (Suc (Suc (Suc 0))))))"
    by simp
  from assms(1) show ?thesis
    using assms(2) by (cases rule: cycle_cases) (auto simp: s7 Next_swrr)
qed

text \<open>
  For \<open>NewWeightedRoundRobin\<close> applied to the URLs u1, u2, u3 (pairwise different) and
  the weights 5, 1, 1: after any number of selections the current weights sum to 7, the
  sum of the weights; the next selection takes an index whose current weight is the
  largest and leaves the sum unchanged; and the next seven selections take u1 five
  times, u2 once and u3 once.
\<close>

lemma smooth_weighted_5_1_1:
  "distinct [u1, u2, u3] \<longrightarrow>
   (\<exists>urls wrr.
      picks n (NewWeightedRoundRobin [u1, u2, u3] [5, 1, 1]) = Inr (urls, wrr) \<and>
      sum_list (wrr_current wrr) = 7 \<and>
      (\<exists>i wrr'. i < 3 \<and> Next wrr = Inr ([u1, u2, u3] ! i, wrr') \<and>
         (\<forall>j<3. wrr_current wrr ! j \<le> wrr_current wrr ! i) \<and>
         sum_list (wrr_current wrr') = sum_list (wrr_current wrr)) \<and>
      (\<exists>window wrr'. picks 7 wrr = Inr (window, wrr') \<and>
         count_list window u1 = 5 \<and> count_list window u2 = 1 \<and> count_list window u3 = 1))"
proof
  assume d: "distinct [u1, u2, u3]"
  have init: "NewWeightedRoundRobin [u1, u2, u3] [5, 1, 1] = swrr u1 u2 u3 [5, 1, 1]"
    by (simp add: NewWeightedRoundRobin_def swrr_def go_copy_def)
  have "[5, 1, 1] \<in> set cycle"
    by (simp add: cycle_def)
  from picks_cycle [OF this, of n u1 u2 u3] obtain urls cur where
    p: "picks n (swrr u1 u2 u3 [5, 1, 1]) = Inr (urls, swrr u1 u2 u3 cur)"
    and c: "cur \<in> set cycle"
    by blast
  from Next_cycle [OF c, of u1 u2 u3] obtain i cur' where
    i: "i < 3" and n: "Next (swrr u1 u2 u3 cur) = Inr ([u1, u2, u3] ! i, swrr u1 u2 u3 cur')"
    and c': "cur' \<in> set cycle" and m: "\<forall>j<3. cur ! j \<le> cur ! i"
    by blast
  from picks_7_cycle [OF c d] obtain window where
    w: "picks 7 (swrr u1 u2 u3 cur) = Inr (window, swrr u1 u2 u3 cur)"
    and k: "count_list window u1 = 5" "count_list window u2 = 1" "count_list window u3 = 1"
    by blast
  have cur: "wrr_current (swrr u1 u2 u3 cur) = cur" "wrr_current (swrr u1 u2 u3 cur') = cur'"
    by (simp_all add: swrr_def)
  show "\<exists>urls wrr.
      picks n (NewWeightedRoundRobin [u1, u2, u3] [5, 1, 1]) = Inr (urls, wrr) \<and>
      sum_list (wrr_current wrr) = 7 \<and>
      (\<exists>i wrr'. i < 3 \<and> Next wrr = Inr ([u1, u2, u3] ! i, wrr') \<and>
         (\<forall>j<3. wrr_current wrr ! j \<le> wrr_current wrr ! i) \<and>
         sum_list (wrr_current wrr') = sum_list (wrr_current wrr)) \<and>
      (\<exists>window wrr'. picks 7 wrr = Inr (window, wrr') \<and>
         count_list window u1 = 5 \<and> count_list window u2 = 1 \<and> count_list window u3 = 1)"
  proof (intro exI conjI)
    show "picks n (NewWeightedRoundRobin [u1, u2, u3] [5, 1, 1]) = Inr (urls, swrr u1 u2 u3 cur)"
      using p by (simp add: init)
    show "sum_list (wrr_current (swrr u1 u2 u3 cur)) = 7"
      using c by (simp add: cur cycle_sum)
    show "i < 3" by (rule i)
    show "Next (swrr u1 u2 u3 cur) = Inr ([u1, u2, u3] ! i, swrr u1 u2 u3 cur')" by (rule n)
    show "\<forall>j<3. wrr_current (swrr u1 u2 u3 cur) ! j \<le> wrr_current (swrr u1 u2 u3 cur) ! i"
      using m by (simp add: cur)
    show "sum_list (wrr_current (swrr u1 u2 u3 cur')) = sum_list (wrr_current (swrr u1 u2 u3 cur))"
      using c c' by (simp add: cur cycle_sum)
    show "picks 7 (swrr u1 u2 u3 cur) = Inr (window, swrr u1 u2 u3 cur)" by (rule w)
    show "count_list window u1 = 5" "count_list window u2 = 1" "count_list window u3 = 1"
      by (rule k)+
  qed
qed

section \<open>Hop-by-hop headers\<close>

lemma canonical_names:
  "CanonicalMIMEHeaderKey ''Connection'' = ''Connection''"
  "CanonicalMIMEHeaderKey ''Keep-Alive'' = ''Keep-Alive''"
  "CanonicalMIMEHeaderKey ''Proxy-Authenticate'' = ''Proxy-Authenticate''"
  "CanonicalMIMEHeaderKey ''Proxy-Authorization'' = ''Proxy-Authorization''"
  "CanonicalMIMEHeaderKey ''Te'' = ''Te''"
  "CanonicalMIMEHeaderKey ''Trailers'' = ''Trailers''"
  "CanonicalMIMEHeaderKey ''Transfer-Encoding'' = ''Transfer-Encoding''"
  "CanonicalMIMEHeaderKey ''Upgrade'' = ''Upgrade''"
  "CanonicalMIMEHeaderKey ''Accept'' = ''Accept''"
  "CanonicalMIMEHeaderKey ''X-Request-Id'' = ''X-Request-Id''"
  by code_simp+

lemma Header_Values_Add_all:
  "Header_Values (fold (\<lambda>v h2. Header_Add key v h2) vs h) k
     = (if k = CanonicalMIMEHeaderKey key then Header_Values h k @ vs else Header_Values h k)"
  by (induction vs arbitrary: h) (auto simp: Header_Add_def Header_Values_def)

lemma Header_Values_map_of_Cons:
  "Header_Values (map_of ((key, vs) # entries)) k
     = (if k = key then vs else Header_Values (map_of entries) k)"
  by (simp add: Header_Values_def)

lemma Header_Values_Del:
  "Header_Values (Header_Del name h) k
     = (if k = CanonicalMIMEHeaderKey name then [] else Header_Values h k)"
  by (simp add: Header_Del_def Header_Values_def)

text \<open>
  Copying a header map whose names are canonical appends, under each name, the
  caller's values to those already there.
\<close>

lemma Header_Values_copyHeaders:
  assumes "distinct (map fst entries)"
    and "\<forall>key \<in> set (map fst entries). CanonicalMIMEHeaderKey key = key"
  shows "Header_Values (copyHeaders entries h) k
           = Header_Values h k @ Header_Values (map_of entries) k"
  using assms
proof (induction entries arbitrary: h)
  case Nil
  then show ?case by (simp add: copyHeaders_def Header_Values_def)
next
  case (Cons e entries)
  obtain key vs where e: "e = (key, vs)" by (cases e)
  have step: "copyHeaders (e # entries) h
                = copyHeaders entries (fold (\<lambda>v h2. Header_Add key v h2) vs h)"
    by (simp add: copyHeaders_def e)
  have canon: "CanonicalMIMEHeaderKey key = key"
    using Cons.prems e by simp
  have "key \<notin> fst ` set entries"
    using Cons.prems e by auto
  then have "map_of entries key = None"
    by (simp add: map_of_eq_None_iff)
  then have none: "Header_Values (map_of entries) key = []"
    by (simp add: Header_Values_def)
  have ih: "Header_Values (copyHeaders entries (fold (\<lambda>v h2. Header_Add key v h2) vs h)) k
              = Header_Values (fold (\<lambda>v h2. Header_Add key v h2) vs h) k
                @ Header_Values (map_of entries) k"
    using Cons.prems by (intro Cons.IH) auto
  have "Header_Values (copyHeaders (e # entries) h) k
          = Header_Values (fold (\<lambda>v h2. Header_Add key v h2) vs h) k
            @ Header_Values (map_of entries) k"
    by (simp only: step ih)
  also have "\<dots> = (if k = key then Header_Values h k @ vs else Header_Values h k)
                    @ Header_Values (map_of entries) k"
    by (simp only: Header_Values_Add_all canon)
  also have "\<dots> = Header_Values h k @ Header_Values (map_of (e # entries)) k"
    using none by (auto simp: e Header_Values_def)
  finally show ?case .
qed

text \<open>
  C8: for a caller's header map as the HTTP server parses it (each name once, in
  canonical form), the header of the upstream request has no entry under any of the
  eight hop-by-hop names, and under every other name it has the caller's values, in
  the same order.
\<close>

theorem Proxy_Header_hop_by_hop:
  "distinct (map fst entries) \<and>
   (\<forall>key \<in> set (map fst entries). CanonicalMIMEHeaderKey key = key) \<longrightarrow>
     (\<forall>key. (key \<in> set hopByHop \<longrightarrow> Proxy_Header entries key = None) \<and>
            (key \<notin> set hopByHop \<longrightarrow>
               Header_Values (Proxy_Header entries) key = Header_Values (map_of entries) key))"
proof (intro impI allI conjI)
  fix key
  note cs = canonical_names
  {
    assume "key \<in> set hopByHop"
    then show "Proxy_Header entries key = None"
      unfolding Proxy_Header_def Header_Del_def cs by (auto simp: hopByHop_def)
  }
  assume h: "distinct (map fst entries) \<and>
             (\<forall>key \<in> set (map fst entries). CanonicalMIMEHeaderKey key = key)"
  assume "key \<notin> set hopByHop"
  then show "Header_Values (Proxy_Header entries) key = Header_Values (map_of entries) key"
    unfolding Proxy_Header_def Header_Values_Del cs
    using Header_Values_copyHeaders [of entries Map.empty key] h
    by (auto simp: hopByHop_def Header_Values_def)
qed

theorem Proxy_Header_hop_by_hop_witness:
  "Proxy_Header caller_headers ''Connection'' = None \<and>
   Header_Values (Proxy_Header caller_headers) ''Accept'' = [''text/html'', ''*/*''] \<and>
   Header_Values (Proxy_Header caller_headers) ''X-Request-Id'' = [''42'']"
  using Proxy_Header_hop_by_hop [of caller_headers]
  by (simp add: caller_headers_def hopByHop_def canonical_names Header_Values_def)

section \<open>Health-aware selection\<close>

lemma GetHealthyURLs_nonempty: "urls \<noteq> [] \<Longrightarrow> GetHealthyURLs urls healthy \<noteq> []"
  by (simp add: GetHealthyURLs_def Let_def)

lemma GetHealthyURLs_fallback:
  "filter snd healthy = [] \<Longrightarrow> GetHealthyURLs urls healthy = urls"
  by (simp add: GetHealthyURLs_def Let_def)

lemma GetHealthyURLs_subset:
  "fst ` set healthy \<subseteq> set urls \<Longrightarrow> set (GetHealthyURLs urls healthy) \<subseteq> set urls"
  by (auto simp: GetHealthyURLs_def Let_def)

text \<open>The probe rounds only ever store the group's own URLs in the health map.\<close>

lemma health_store_keys: "fst ` set (health_store url b m) = insert url (fst ` set m)"
proof (induction m)
  case Nil
  then show ?case by simp
next
  case (Cons e m)
  obtain k v where e: "e = (k, v)" by (cases e)
  show ?case
  proof (cases "k = url")
    case True
    then show ?thesis by (simp add: e)
  next
    case False
    then show ?thesis using Cons.IH by (simp add: e insert_commute)
  qed
qed

lemma checkAll_keys:
  "fst ` set (checkAll checkHealth urls healthy) = set urls \<union> fst ` set healthy"
  unfolding checkAll_def
  by (induction urls arbitrary: healthy) (auto simp: health_store_keys)

lemma leastLoop_member: "fst (leastLoop ct rest (u, n)) \<in> insert u (set rest)"
  by (induction rest arbitrary: u n) (auto split: if_splits)

lemma GetLeastConnections_member:
  "urls \<noteq> [] \<Longrightarrow> GetLeastConnections ct urls \<in> set urls"
  using leastLoop_member [of ct "tl urls" "hd urls" "GetCount ct (hd urls)"]
  by (cases urls) (auto simp: GetLeastConnections_def)

lemma findMax_index: "snd (findMax cur idxs (w, i)) \<in> insert i (set idxs)"
  by (induction idxs arbitrary: w i) (auto split: if_splits)

lemma go_rem_range:
  assumes "0 \<le> a" and "0 < b"
  shows "0 \<le> go_rem a b \<and> go_rem a b < b"
proof -
  have "go_rem a b = a mod b"
    using assms by (simp add: go_rem_def go_quot_def minus_mult_div_eq_mod)
  then show ?thesis using assms by simp
qed

text \<open>
  The balancer of a group keeps the group's URLs, one current weight per URL and at
  least as many weights: \<open>NewRouter\<close> builds it so, and \<open>Next\<close> keeps it so and then
  returns one of the URLs.
\<close>

lemma Next_member:
  assumes "wrr_urls b = urls" and "urls \<noteq> []"
    and "length (wrr_current b) = length urls" and "length urls \<le> length (wrr_weights b)"
  shows "\<exists>url b'. Next b = Inr (url, b') \<and> url \<in> set urls \<and> wrr_urls b' = urls \<and>
           length (wrr_current b') = length urls \<and> wrr_weights b' = wrr_weights b"
proof -
  obtain w i where f: "findMax (wrr_current b) [0..<length urls] (- 1, 0) = (w, i)"
    by (cases "findMax (wrr_current b) [0..<length urls] (- 1, 0)")
  have "i \<in> insert 0 (set [0..<length urls])"
    using findMax_index [of "wrr_current b" "[0..<length urls]" "- 1" 0] f by simp
  then have i: "i < length urls"
    using assms(2) by auto
  show ?thesis
    using assms f i by (simp add: Next_def Let_def)
qed

lemma NewRouter_balancer:
  "length (wrr_current (NewWeightedRoundRobin (cfg_URLs c) (NewRouter_Weights c)))
     = length (cfg_URLs c) \<and>
   length (cfg_URLs c)
     \<le> length (wrr_weights (NewWeightedRoundRobin (cfg_URLs c) (NewRouter_Weights c)))"
proof -
  have "\<And>ws. length (fold (\<lambda>_ ws. ws @ [if cfg_Weight c = 0 then 1 else cfg_Weight c]) us ws)
          = length ws + length us" for us :: "string list"
    by (induction us) auto
  then have "length (NewRouter_Weights c) = 2 * length (cfg_URLs c)"
    by (simp add: NewRouter_Weights_def)
  then show ?thesis
    by (simp add: NewWeightedRoundRobin_def go_copy_def)
qed

lemma roundRobin_member:
  assumes "URLs upstream \<noteq> []" and "Health upstream = Some healthy"
    and "fst ` set healthy \<subseteq> set (URLs upstream)"
    and "0 \<le> Current upstream" and "Current upstream < 2 ^ 63 - 1"
  shows "\<exists>url upstream'. roundRobin r upstream = Inr (url, upstream', r) \<and>
           url \<in> set (URLs upstream)"
proof -
  let ?h = "GetHealthyURLs (URLs upstream) healthy"
  have c: "candidates upstream = ?h"
    using assms(2) by (simp add: candidates_def)
  have ne: "?h \<noteq> []"
    using assms(1) by (rule GetHealthyURLs_nonempty)
  have "go_int64 (Current upstream + 1) = Current upstream + 1"
    using assms(4,5) by (intro go_int64_id) auto
  then have rng: "0 \<le> go_rem (go_int64 (Current upstream + 1)) (int (length ?h)) \<and>
                  go_rem (go_int64 (Current upstream + 1)) (int (length ?h)) < int (length ?h)"
    using go_rem_range [of "Current upstream + 1" "int (length ?h)"] assms(4) ne by simp
  then have "?h ! nat (go_rem (go_int64 (Current upstream + 1)) (int (length ?h))) \<in> set ?h"
    by (intro nth_mem) auto
  then have "?h ! nat (go_rem (go_int64 (Current upstream + 1)) (int (length ?h)))
               \<in> set (URLs upstream)"
    using GetHealthyURLs_subset [OF assms(3)] by blast
  then show ?thesis
    using assms(1) ne rng by (simp add: roundRobin_def c Let_def)
qed

lemma leastConnections_member:
  assumes "URLs upstream \<noteq> []" and "Health upstream = Some healthy"
    and "fst ` set healthy \<subseteq> set (URLs upstream)"
  shows "\<exists>url. leastConnections r upstream = Inr (url, upstream, r) \<and>
           url \<in> set (URLs upstream)"
proof -
  let ?h = "GetHealthyURLs (URLs upstream) healthy"
  have c: "candidates upstream = ?h"
    using assms(2) by (simp add: candidates_def)
  have ne: "?h \<noteq> []"
    using assms(1) by (rule GetHealthyURLs_nonempty)
  have "GetLeastConnections (connTracker r) ?h \<in> set (URLs upstream)"
    using GetLeastConnections_member [OF ne] GetHealthyURLs_subset [OF assms(3)] by blast
  then show ?thesis
    using ne by (simp add: leastConnections_def c Let_def)
qed

lemma weighted_member:
  assumes "URLs upstream \<noteq> []" and "Health upstream = Some healthy"
    and "weightedBalancers r (Name upstream) = Some b"
    and "wrr_urls b = URLs upstream"
    and "length (wrr_current b) = length (URLs upstream)"
    and "length (URLs upstream) \<le> length (wrr_weights b)"
  shows "\<exists>url r'. weighted r upstream = Inr (url, upstream, r') \<and> url \<in> set (URLs upstream)"
proof -
  let ?h = "GetHealthyURLs (URLs upstream) healthy"
  have c: "candidates upstream = ?h"
    using assms(2) by (simp add: candidates_def)
  have ne: "?h \<noteq> []"
    using assms(1) by (rule GetHealthyURLs_nonempty)
  from Next_member [OF assms(4) assms(1) assms(5) assms(6)] obtain url b' where
    "Next b = Inr (url, b')" and "url \<in> set (URLs upstream)"
    by blast
  then show ?thesis
    using ne assms(3) by (simp add: weighted_def c Let_def)
qed

text \<open>
  C10 does not hold as stated: the configured URLs are not validated, and for the group
  with a health probe whose only URL is the empty string, a non-empty list, the selector
  returns the empty string under each of the three policies.
\<close>

theorem selector_returns_empty_configured_url:
  "URLs blank_upstream = [[]] \<and>
   Health blank_upstream = Some [] \<and>
   GetHealthyURLs (URLs blank_upstream) [] = [[]] \<and>
   map_sum id fst (selectUpstream (blank_router ''round_robin'') blank_upstream) = Inr [] \<and>
   map_sum id fst (selectUpstream (blank_router ''least_connections'') blank_upstream) = Inr [] \<and>
   map_sum id fst (selectUpstream (blank_router ''weighted'') blank_upstream) = Inr []"
  by code_simp

text \<open>
  C10 (amended): for a group with a health checker and a non-empty list of URLs,
  \<open>GetHealthyURLs\<close> is never empty and is the whole list when no URL is marked
  healthy, and the selector returns one of the group's configured URLs; so it returns
  the empty string only when the list is empty or holds the empty string.
  The group is in a state the router produces: the health map holds the group's URLs,
  the cursor is not negative, and under the weighted policy the group's balancer is
  the one built at start-up (the group's URLs, one current weight per URL, no fewer
  weights).
\<close>

theorem selector_returns_configured_url:
  "URLs upstream \<noteq> [] \<and> Health upstream = Some healthy \<and>
   fst ` set healthy \<subseteq> set (URLs upstream) \<and>
   0 \<le> Current upstream \<and> Current upstream < 2 ^ 63 - 1 \<and>
   (LoadBalancer r = ''weighted'' \<longrightarrow>
      (\<exists>b. weightedBalancers r (Name upstream) = Some b \<and> wrr_urls b = URLs upstream \<and>
           length (wrr_current b) = length (URLs upstream) \<and>
           length (URLs upstream) \<le> length (wrr_weights b)))
   \<longrightarrow>
   GetHealthyURLs (URLs upstream) healthy \<noteq> [] \<and>
   (filter snd healthy = [] \<longrightarrow> GetHealthyURLs (URLs upstream) healthy = URLs upstream) \<and>
   (\<exists>url upstream' r'. selectUpstream r upstream = Inr (url, upstream', r') \<and>
      url \<in> set (URLs upstream) \<and> (url = [] \<longrightarrow> [] \<in> set (URLs upstream)))"
proof (intro impI conjI)
  assume a: "URLs upstream \<noteq> [] \<and> Health upstream = Some healthy \<and>
   fst ` set healthy \<subseteq> set (URLs upstream) \<and>
   0 \<le> Current upstream \<and> Current upstream < 2 ^ 63 - 1 \<and>
   (LoadBalancer r = ''weighted'' \<longrightarrow>
      (\<exists>b. weightedBalancers r (Name upstream) = Some b \<and> wrr_urls b = URLs upstream \<and>
           length (wrr_current b) = length (URLs upstream) \<and>
           length (URLs upstream) \<le> length (wrr_weights b)))"
  then have ne: "URLs upstream \<noteq> []" and h: "Health upstream = Some healthy"
    and sub: "fst ` set healthy \<subseteq> set (URLs upstream)"
    and cur: "0 \<le> Current upstream" "Current upstream < 2 ^ 63 - 1"
    by simp_all
  show "GetHealthyURLs (URLs upstream) healthy \<noteq> []"
    using ne by (rule GetHealthyURLs_nonempty)
  show "GetHealthyURLs (URLs upstream) healthy = URLs upstream" if "filter snd healthy = []"
    using that by (rule GetHealthyURLs_fallback)
  have rr: "\<exists>url upstream' r'. roundRobin r upstream = Inr (url, upstream', r') \<and>
              url \<in> set (URLs upstream)"
    using roundRobin_member [OF ne h sub cur, of r] by blast
  have lc: "\<exists>url upstream' r'. leastConnections r upstream = Inr (url, upstream', r') \<and>
              url \<in> set (URLs upstream)"
    using leastConnections_member [OF ne h sub, of r] by blast
  have wt: "\<exists>url upstream' r'. weighted r upstream = Inr (url, upstream', r') \<and>
              url \<in> set (URLs upstream)" if "LoadBalancer r = ''weighted''"
  proof -
    from a that obtain b where "weightedBalancers r (Name upstream) = Some b"
      and "wrr_urls b = URLs upstream" and "length (wrr_current b) = length (URLs upstream)"
      and "length (URLs upstream) \<le> length (wrr_weights b)"
      by blast
    from weighted_member [OF ne h this] show ?thesis by blast
  qed
  have "\<exists>url upstream' r'. selectUpstream r upstream = Inr (url, upstream', r') \<and>
          url \<in> set (URLs upstream)"
    using ne rr lc wt by (simp add: selectUpstream_def)
  then show "\<exists>url upstream' r'. selectUpstream r upstream = Inr (url, upstream', r') \<and>
      url \<in> set (URLs upstream) \<and> (url = [] \<longrightarrow> [] \<in> set (URLs upstream))"
    by blast
qed

theorem selector_returns_configured_url_witness:
  "GetHealthyURLs (URLs upstream_fresh) [] = URLs upstream_fresh \<and>
   (\<exists>url upstream' r'. selectUpstream rr_router upstream_probed = Inr (url, upstream', r') \<and>
      url \<in> set (URLs upstream_probed) \<and> url \<noteq> []) \<and>
   (\<exists>url upstream' r'. selectUpstream weighted_router upstream_fresh = Inr (url, upstream', r') \<and>
      url \<in> set (URLs upstream_fresh) \<and> url \<noteq> []) \<and>
   (\<exists>url upstream' r'.
      selectUpstream (blank_router ''round_robin'') blank_upstream = Inr (url, upstream', r') \<and>
      url \<in> set (URLs blank_upstream))"
  using selector_returns_configured_url [of upstream_fresh "[]" rr_router]
    selector_returns_configured_url
      [of upstream_probed "[(''u1'', False), (''u2'', True)]" rr_router]
    selector_returns_configured_url [of upstream_fresh "[]" weighted_router]
    selector_returns_configured_url [of blank_upstream "[]" "blank_router ''round_robin''"]
  by (simp add: upstream_fresh_def upstream_probed_def rr_router_def weighted_router_def
        probed_cfg_def NewRouter_def NewRouter_Upstream_def NewRouter_Weights_def
        NewWeightedRoundRobin_def go_copy_def checkAll_def blank_upstream_def blank_router_def
        blank_cfg_def)

end
